theory Spec2Isabelle
  imports Main "HOL-Library.AList"
begin

section \<open>Data model (hdl\_parser/models.py)\<close>

text \<open>
  The three dataclasses of the package. A pin or signal name is a Python string; the
  model reads a \<^typ>\<open>char\<close> as one code point below 256. The field \<open>name\<close> of
  \<open>ChipInstance\<close> is \<open>inst_name\<close> here, since \<open>ChipDefinition\<close> has a field of
  the same name.
\<close>

record connection =
  source :: string
  destination :: string

record chip_instance =
  chip_type :: string
  inst_name :: string
  connections :: "connection list"

record chip_definition =
  name :: string
  inputs :: "string list"
  outputs :: "string list"
  parts :: "chip_instance list"
  internal_pins :: "string set"

text \<open>\<open>ChipDefinition(name, inputs, outputs)\<close> with the defaulted fields left empty.\<close>

definition ChipDefinition :: "string \<Rightarrow> string list \<Rightarrow> string list \<Rightarrow> chip_definition" where
  "ChipDefinition n ins outs =
     \<lparr>name = n, inputs = ins, outputs = outs, parts = [], internal_pins = {}\<rparr>"

text \<open>The positional constructors \<open>Connection(source, destination)\<close> and
  \<open>ChipInstance(chip_type, name)\<close> followed by the assignment of \<open>connections\<close>.\<close>

definition Connection :: "string \<Rightarrow> string \<Rightarrow> connection" where
  "Connection src dest = \<lparr>source = src, destination = dest\<rparr>"

definition ChipInstance :: "string \<Rightarrow> string \<Rightarrow> connection list \<Rightarrow> chip_instance" where
  "ChipInstance ctype nm conns = \<lparr>chip_type = ctype, inst_name = nm, connections = conns\<rparr>"

text \<open>
  Exceptions are values. Both the parser's format error and the simulator's unknown-chip
  error are Python \<open>ValueError\<close>s, told apart by their message only.
\<close>

datatype error = ValueError string | FileNotFoundError string

section \<open>The parser (hdl\_parser/parser.py)\<close>

record hdl_parser =
  chips_cache :: "string \<rightharpoonup> chip_definition"

definition built_in_chips :: "string \<rightharpoonup> chip_definition" where
  "built_in_chips =
     [''Nand'' \<mapsto> ChipDefinition ''Nand'' [''a'', ''b''] [''out''],
      ''Not'' \<mapsto> ChipDefinition ''Not'' [''in''] [''out''],
      ''And'' \<mapsto> ChipDefinition ''And'' [''a'', ''b''] [''out''],
      ''Or'' \<mapsto> ChipDefinition ''Or'' [''a'', ''b''] [''out'']]"

text \<open>\<open>HDLParser()\<close>: an empty cache, updated with the built-in chips.\<close>

definition init_parser :: hdl_parser where
  "init_parser = \<lparr>chips_cache = Map.empty ++ built_in_chips\<rparr>"

subsection \<open>The regular expressions\<close>

text \<open>
  Python's \<open>\s\<close> and \<open>\w\<close> on \<open>str\<close> patterns, and \<open>str.strip\<close>, for code points
  below 256: white space is \<open>\t \n \v \f \r\<close>, the separators 28 to 31, the blank, NEL
  and the no-break space; a word character is alphanumeric or the underscore.
\<close>

definition is_space :: "char \<Rightarrow> bool" where
  "is_space c =
     (let n = (of_char c :: nat)
      in (9 \<le> n \<and> n \<le> 13) \<or> (28 \<le> n \<and> n \<le> 32) \<or> n = 133 \<or> n = 160)"

definition is_word :: "char \<Rightarrow> bool" where
  "is_word c =
     (let n = (of_char c :: nat)
      in (48 \<le> n \<and> n \<le> 57) \<or> (65 \<le> n \<and> n \<le> 90) \<or> n = 95 \<or> (97 \<le> n \<and> n \<le> 122)
         \<or> n = 170 \<or> n = 178 \<or> n = 179 \<or> n = 181 \<or> n = 185 \<or> n = 186
         \<or> (188 \<le> n \<and> n \<le> 190) \<or> (192 \<le> n \<and> n \<le> 214) \<or> (216 \<le> n \<and> n \<le> 246)
         \<or> 248 \<le> n)"

definition newline :: char where
  "newline = CHR 0x0A"

text \<open>A literal piece of a pattern at the current position; the text after it.\<close>

fun strip_prefix :: "string \<Rightarrow> string \<Rightarrow> string option" where
  "strip_prefix [] cs = Some cs"
| "strip_prefix (p # ps) [] = None"
| "strip_prefix (p # ps) (c # cs) = (if p = c then strip_prefix ps cs else None)"

text \<open>
  \<open>re.sub(r'//.*$', '', content, flags=re.MULTILINE)\<close>: from \<open>//\<close> to the end of the
  line, the newline kept.
\<close>

function remove_line_comments :: "string \<Rightarrow> string" where
  "remove_line_comments (c # d # cs) =
     (if c = CHR ''/'' \<and> d = CHR ''/''
      then remove_line_comments (dropWhile (\<lambda>x. x \<noteq> newline) cs)
      else c # remove_line_comments (d # cs))"
| "remove_line_comments [c] = [c]"
| "remove_line_comments [] = []"
  by pat_completeness auto
termination
  by (relation "measure length") (auto intro: le_less_trans [OF length_dropWhile_le])

text \<open>
  \<open>re.sub(r'/\*.*?\*/', '', content, flags=re.DOTALL)\<close>. \<open>find_close cs\<close> is the
  number of characters of \<open>cs\<close> up to and including the first \<open>*/\<close>; an opening
  with no closing is no match and stays in the text.
\<close>

fun find_close :: "string \<Rightarrow> nat option" where
  "find_close (c # d # cs) =
     (if c = CHR ''*'' \<and> d = CHR ''/'' then Some 2 else map_option Suc (find_close (d # cs)))"
| "find_close cs = None"

fun remove_block_comments :: "string \<Rightarrow> string" where
  "remove_block_comments (c # d # cs) =
     (if c = CHR ''/'' \<and> d = CHR ''*''
      then (case find_close cs of
              Some n \<Rightarrow> remove_block_comments (drop n cs)
            | None \<Rightarrow> c # remove_block_comments (d # cs))
      else c # remove_block_comments (d # cs))"
| "remove_block_comments cs = cs"

definition remove_comments :: "string \<Rightarrow> string" where
  "remove_comments content = remove_block_comments (remove_line_comments content)"

text \<open>
  \<open>re.search(r'CHIP\s+(\w+)\s*{(.*?)}', content, re.DOTALL)\<close>. \<open>match_chip\<close> is the
  pattern at the current position and returns the two groups; the classes \<open>\s\<close> and
  \<open>\w\<close> are disjoint and exclude the brace, so each greedy run is the maximal one, and
  the lazy body ends at the first closing brace.
\<close>

definition match_chip :: "string \<Rightarrow> (string \<times> string) option" where
  "match_chip cs =
     (case strip_prefix ''CHIP'' cs of
        None \<Rightarrow> None
      | Some r1 \<Rightarrow>
          if takeWhile is_space r1 = [] then None
          else let r2 = dropWhile is_space r1;
                   chip_name = takeWhile is_word r2
               in if chip_name = [] then None
                  else (case dropWhile is_space (dropWhile is_word r2) of
                          [] \<Rightarrow> None
                        | c # r3 \<Rightarrow>
                            if c = CHR ''{'' \<and> CHR ''}'' \<in> set r3
                            then Some (chip_name, takeWhile (\<lambda>x. x \<noteq> CHR ''}'') r3)
                            else None))"

fun search_chip :: "string \<Rightarrow> (string \<times> string) option" where
  "search_chip [] = match_chip []"
| "search_chip (c # cs) =
     (case match_chip (c # cs) of Some m \<Rightarrow> Some m | None \<Rightarrow> search_chip cs)"

text \<open>
  \<open>re.search(rf'{section_name}\s+(.*?);', chip_body)\<close>: the dot stops at a newline, so
  the group is the text after the white space up to the first semicolon of that line.
\<close>

definition match_io :: "string \<Rightarrow> string \<Rightarrow> string option" where
  "match_io section_name cs =
     (case strip_prefix section_name cs of
        None \<Rightarrow> None
      | Some r1 \<Rightarrow>
          if takeWhile is_space r1 = [] then None
          else let r2 = dropWhile is_space r1;
                   pins_str = takeWhile (\<lambda>x. x \<noteq> CHR '';'' \<and> x \<noteq> newline) r2
               in (case dropWhile (\<lambda>x. x \<noteq> CHR '';'' \<and> x \<noteq> newline) r2 of
                     [] \<Rightarrow> None
                   | c # r3 \<Rightarrow> if c = CHR '';'' then Some pins_str else None))"

fun search_io :: "string \<Rightarrow> string \<Rightarrow> string option" where
  "search_io section_name [] = match_io section_name []"
| "search_io section_name (c # cs) =
     (case match_io section_name (c # cs) of
        Some m \<Rightarrow> Some m
      | None \<Rightarrow> search_io section_name cs)"

text \<open>\<open>str.split(sep)\<close> for a one-character separator, and \<open>str.strip()\<close>.\<close>

fun split_on :: "char \<Rightarrow> string \<Rightarrow> string list" where
  "split_on sep [] = [[]]"
| "split_on sep (c # cs) =
     (if c = sep then [] # split_on sep cs
      else (case split_on sep cs of [] \<Rightarrow> [[c]] | x # xs \<Rightarrow> (c # x) # xs))"

definition strip :: "string \<Rightarrow> string" where
  "strip cs = rev (dropWhile is_space (rev (dropWhile is_space cs)))"

definition parse_io_section :: "string \<Rightarrow> string \<Rightarrow> string list" where
  "parse_io_section chip_body section_name =
     (case search_io section_name chip_body of
        None \<Rightarrow> []
      | Some pins_str \<Rightarrow>
          map strip (filter (\<lambda>pin. strip pin \<noteq> []) (split_on (CHR '','') pins_str)))"

text \<open>
  \<open>re.search(r'PARTS:\s*(.*?)(?:}|$)', chip_body, re.DOTALL)\<close>: the group ends before
  the first closing brace, before a newline that is the last character, or at the end.
\<close>

fun until_close_or_end :: "string \<Rightarrow> string" where
  "until_close_or_end [] = []"
| "until_close_or_end (c # cs) =
     (if c = CHR ''}'' \<or> (c = newline \<and> cs = []) then []
      else c # until_close_or_end cs)"

definition match_parts :: "string \<Rightarrow> string option" where
  "match_parts cs =
     (case strip_prefix ''PARTS:'' cs of
        None \<Rightarrow> None
      | Some r1 \<Rightarrow> Some (until_close_or_end (dropWhile is_space r1)))"

fun search_parts :: "string \<Rightarrow> string option" where
  "search_parts [] = match_parts []"
| "search_parts (c # cs) =
     (case match_parts (c # cs) of Some m \<Rightarrow> Some m | None \<Rightarrow> search_parts cs)"

text \<open>
  \<open>re.finditer(r'(\w+)\s*\((.*?)\)\s*;', parts_content, re.DOTALL)\<close>. \<open>match_args\<close>
  is the part of the pattern after the opening parenthesis: the lazy group ends at the
  first closing parenthesis that white space and a semicolon follow. A match returns its
  groups and its length; the scan goes on after the match, or one character further when
  there is none.
\<close>

fun match_args :: "string \<Rightarrow> (string \<times> nat) option" where
  "match_args [] = None"
| "match_args (c # cs) =
     (if c = CHR '')'' \<and> (case dropWhile is_space cs of [] \<Rightarrow> False | d # r \<Rightarrow> d = CHR '';'')
      then Some ([], length (takeWhile is_space cs) + 2)
      else map_option (\<lambda>(g, n). (c # g, Suc n)) (match_args cs))"

definition match_part :: "string \<Rightarrow> (string \<times> string \<times> nat) option" where
  "match_part cs =
     (let ctype = takeWhile is_word cs;
          r1 = dropWhile is_word cs
      in if ctype = [] then None
         else (case dropWhile is_space r1 of
                 [] \<Rightarrow> None
               | c # r2 \<Rightarrow>
                   if c \<noteq> CHR ''('' then None
                   else (case match_args r2 of
                           None \<Rightarrow> None
                         | Some (connections_str, n) \<Rightarrow>
                             Some (ctype, connections_str,
                                   length ctype + length (takeWhile is_space r1) + 1 + n))))"

fun finditer_part :: "string \<Rightarrow> (string \<times> string) list" where
  "finditer_part [] = []"
| "finditer_part (c # cs) =
     (case match_part (c # cs) of
        Some (ctype, connections_str, n) \<Rightarrow>
          (ctype, connections_str) # finditer_part (drop (n - 1) cs)
      | None \<Rightarrow> finditer_part cs)"

text \<open>
  \<open>_parse_connections\<close>: \<open>re.finditer(r'(\w+)\s*=\s*(\w+)', connections_str)\<close>; group 1
  is the destination (the pin of the sub-chip), group 2 the source (the signal of the
  enclosing chip).
\<close>

definition match_conn :: "string \<Rightarrow> (string \<times> string \<times> nat) option" where
  "match_conn cs =
     (let dest = takeWhile is_word cs;
          r1 = dropWhile is_word cs
      in if dest = [] then None
         else (case dropWhile is_space r1 of
                 [] \<Rightarrow> None
               | c # r2 \<Rightarrow>
                   if c \<noteq> CHR ''='' then None
                   else let src = takeWhile is_word (dropWhile is_space r2)
                        in if src = [] then None
                           else Some (dest, src,
                                      length dest + length (takeWhile is_space r1) + 1
                                      + length (takeWhile is_space r2) + length src)))"

fun parse_connections :: "string \<Rightarrow> connection list" where
  "parse_connections [] = []"
| "parse_connections (c # cs) =
     (case match_conn (c # cs) of
        Some (dest, src, n) \<Rightarrow>
          \<lparr>source = src, destination = dest\<rparr> # parse_connections (drop (n - 1) cs)
      | None \<Rightarrow> parse_connections cs)"

subsection \<open>Building the chip definition\<close>

text \<open>\<open>str(n)\<close> for the ordinal in an instance name.\<close>

fun decimal :: "nat \<Rightarrow> nat \<Rightarrow> string" where
  "decimal 0 n = []"
| "decimal (Suc fuel) n =
     (if n < 10 then [char_of (48 + n)]
      else decimal fuel (n div 10) @ [char_of (48 + n mod 10)])"

definition str_of_nat :: "nat \<Rightarrow> string" where
  "str_of_nat n = decimal (Suc n) n"

text \<open>
  The loop over the connections of one part in \<open>_parse_parts_section\<close>. Both tests add
  the source of the connection; no branch adds a destination.
\<close>

fun track_internal_pins ::
  "string list \<Rightarrow> string list \<Rightarrow> connection list \<Rightarrow> string set \<Rightarrow> string set" where
  "track_internal_pins ins outs [] pins = pins"
| "track_internal_pins ins outs (conn # conns) pins =
     (let pins1 = (if source conn \<notin> set ins \<and> source conn \<notin> set outs
                   then insert (source conn) pins else pins);
          pins2 = (if destination conn \<in> set [''a'', ''b'', ''in''] \<and> source conn \<notin> set ins
                   then (if source conn \<notin> set outs then insert (source conn) pins1 else pins1)
                   else pins1)
      in track_internal_pins ins outs conns pins2)"

text \<open>The loop over the matches of the part pattern; the accumulator is \<open>(parts, internal_pins)\<close>.\<close>

fun parse_part_matches ::
  "string list \<Rightarrow> string list \<Rightarrow> (string \<times> string) list \<Rightarrow>
   chip_instance list \<times> string set \<Rightarrow> chip_instance list \<times> string set" where
  "parse_part_matches ins outs [] acc = acc"
| "parse_part_matches ins outs ((ctype, connections_str) # ms) (ps, pins) =
     (let instance_name = ctype @ ''_'' @ str_of_nat (length ps);
          conns = parse_connections connections_str;
          inst = \<lparr>chip_type = ctype, inst_name = instance_name, connections = conns\<rparr>
      in parse_part_matches ins outs ms (ps @ [inst], track_internal_pins ins outs conns pins))"

definition parse_parts_section ::
  "string \<Rightarrow> string list \<Rightarrow> string list \<Rightarrow> chip_instance list \<times> string set" where
  "parse_parts_section chip_body ins outs =
     (case search_parts chip_body of
        None \<Rightarrow> ([], {})
      | Some parts_content \<Rightarrow>
          parse_part_matches ins outs (finditer_part parts_content) ([], {}))"

text \<open>
  \<open>parse_hdl\<close> returns the definition, or the \<open>ValueError\<close> it raises, and the parser
  with its cache updated. The argument \<open>expected_name\<close> is \<open>Optional[str]\<close>.
\<close>

definition parse_hdl ::
  "hdl_parser \<Rightarrow> string \<Rightarrow> string option \<Rightarrow> (error + chip_definition) \<times> hdl_parser" where
  "parse_hdl p content expected_name =
     (case search_chip (remove_comments content) of
        None \<Rightarrow> (Inl (ValueError ''Invalid HDL format - no CHIP definition found''), p)
      | Some (chip_name, chip_body) \<Rightarrow>
          let ins = parse_io_section chip_body ''IN'';
              outs = parse_io_section chip_body ''OUT'';
              (ps, pins) = parse_parts_section chip_body ins outs;
              chip_def = \<lparr>name = chip_name, inputs = ins, outputs = outs,
                          parts = ps, internal_pins = pins\<rparr>
          in (Inr chip_def, p\<lparr>chips_cache := (chips_cache p)(chip_name \<mapsto> chip_def)\<rparr>))"

text \<open>
  The ambient file namespace is a map from a file name to the text of the file; it is
  only read. \<open>path_stem\<close> is \<open>Path(filename).stem\<close>: the last component of the path
  without its last suffix.
\<close>

type_synonym files = "string \<rightharpoonup> string"

definition path_name :: "string \<Rightarrow> string" where
  "path_name filename =
     (let comps = filter (\<lambda>c. c \<noteq> [] \<and> c \<noteq> ''.'') (split_on (CHR ''/'') filename)
      in if comps = [] then [] else last comps)"

definition path_stem :: "string \<Rightarrow> string" where
  "path_stem filename =
     (let nm = path_name filename;
          i = length nm - Suc (length (takeWhile (\<lambda>x. x \<noteq> CHR ''.'') (rev nm)))
      in if CHR ''.'' \<in> set nm \<and> 0 < i \<and> Suc i < length nm then take i nm else nm)"

definition parse_file ::
  "files \<Rightarrow> hdl_parser \<Rightarrow> string \<Rightarrow> (error + chip_definition) \<times> hdl_parser" where
  "parse_file fs p filename =
     (case fs filename of
        None \<Rightarrow> (Inl (FileNotFoundError (''HDL file not found: '' @ filename)), p)
      | Some content \<Rightarrow> parse_hdl p content (Some (path_stem filename)))"

text \<open>
  \<open>get_chip_definition\<close> returns \<open>Optional[ChipDefinition]\<close>; only \<open>FileNotFoundError\<close>
  is caught.
\<close>

definition get_chip_definition ::
  "files \<Rightarrow> hdl_parser \<Rightarrow> string \<Rightarrow> (error + chip_definition option) \<times> hdl_parser" where
  "get_chip_definition fs p chip_name =
     (case chips_cache p chip_name of
        Some d \<Rightarrow> (Inr (Some d), p)
      | None \<Rightarrow>
          (case parse_file fs p (chip_name @ ''.hdl'') of
             (Inl (FileNotFoundError m), p') \<Rightarrow> (Inr None, p')
           | (Inl (ValueError m), p') \<Rightarrow> (Inl (ValueError m), p')
           | (Inr d, p') \<Rightarrow> (Inr (Some d), p')))"

section \<open>The simulator (hdl\_parser/simulator.py)\<close>

text \<open>
  The simulator object: its parser and the attribute \<open>signal_values\<close>, one dictionary
  shared by every call on the object. A dictionary of signal values is a map;
  \<open>dict_get d k v\<close> is \<open>d.get(k, v)\<close>. A value is truthy when it is not zero.
\<close>

type_synonym signals = "string \<rightharpoonup> int"

record chip_simulator =
  parser :: hdl_parser
  signal_values :: signals

definition ChipSimulator :: "hdl_parser \<Rightarrow> chip_simulator" where
  "ChipSimulator p = \<lparr>parser = p, signal_values = Map.empty\<rparr>"

definition max_iterations :: nat where
  "max_iterations = 100"

definition dict_get :: "signals \<Rightarrow> string \<Rightarrow> int \<Rightarrow> int" where
  "dict_get d k v = (case d k of Some x \<Rightarrow> x | None \<Rightarrow> v)"

definition evaluate_builtin :: "string \<Rightarrow> signals \<Rightarrow> int" where
  "evaluate_builtin ctype ins =
     (if ctype = ''Nand''
      then (let a = dict_get ins ''a'' 0; b = dict_get ins ''b'' 0
            in if a \<noteq> 0 \<and> b \<noteq> 0 then 0 else 1)
      else if ctype = ''Not''
      then (let in_val = dict_get ins ''in'' 0 in if in_val \<noteq> 0 then 0 else 1)
      else if ctype = ''And''
      then (let a = dict_get ins ''a'' 0; b = dict_get ins ''b'' 0
            in if a \<noteq> 0 \<and> b \<noteq> 0 then 1 else 0)
      else if ctype = ''Or''
      then (let a = dict_get ins ''a'' 0; b = dict_get ins ''b'' 0
            in if a \<noteq> 0 \<or> b \<noteq> 0 then 1 else 0)
      else 0)"

definition simulate_builtin_chip :: "chip_definition \<Rightarrow> signals \<Rightarrow> signals" where
  "simulate_builtin_chip chip_def ins =
     (let output_val =
        (if name chip_def = ''Nand''
         then (let a = dict_get ins ''a'' 0; b = dict_get ins ''b'' 0
               in if a \<noteq> 0 \<and> b \<noteq> 0 then 0 else 1)
         else if name chip_def = ''Not''
         then (let in_val = dict_get ins ''in'' 0 in if in_val \<noteq> 0 then 0 else 1)
         else if name chip_def = ''And''
         then (let a = dict_get ins ''a'' 0; b = dict_get ins ''b'' 0
               in if a \<noteq> 0 \<and> b \<noteq> 0 then 1 else 0)
         else if name chip_def = ''Or''
         then (let a = dict_get ins ''a'' 0; b = dict_get ins ''b'' 0
               in if a \<noteq> 0 \<or> b \<noteq> 0 then 1 else 0)
         else 0)
      in [''out'' \<mapsto> output_val])"

text \<open>
  \<open>_simulate_builtin_part\<close>. The loop over the connections collects the input values
  and the signal bound to \<open>out\<close> (the last one wins); the accumulator is
  \<open>(input_vals, output_signal)\<close>.
\<close>

fun gather_builtin ::
  "signals \<Rightarrow> connection list \<Rightarrow> signals \<times> string option \<Rightarrow> signals \<times> string option" where
  "gather_builtin sv [] acc = acc"
| "gather_builtin sv (conn # conns) (input_vals, output_signal) =
     gather_builtin sv conns
       (if destination conn \<in> set [''a'', ''b'', ''in'']
        then (input_vals(destination conn \<mapsto> dict_get sv (source conn) 0), output_signal)
        else if destination conn = ''out''
        then (input_vals, Some (source conn))
        else (input_vals, output_signal))"

definition simulate_builtin_part :: "chip_instance \<Rightarrow> chip_simulator \<Rightarrow> bool \<times> chip_simulator" where
  "simulate_builtin_part part st =
     (let (input_vals, output_signal) =
            gather_builtin (signal_values st) (connections part) (Map.empty, None);
          output_val = evaluate_builtin (chip_type part) input_vals
      in (case output_signal of
            None \<Rightarrow> (False, st)
          | Some sig \<Rightarrow>
              let old_val = dict_get (signal_values st) sig 0
              in if old_val \<noteq> output_val
                 then (True, st\<lparr>signal_values := (signal_values st)(sig \<mapsto> output_val)\<rparr>)
                 else (False, st)))"

text \<open>
  A call that may raise and changes the simulator returns the exception or the value,
  and the simulator as the call leaves it. \<open>None\<close> is a call that does not return:
  the recursion through sub-chips is unbounded when chip types refer to each other in a
  cycle.
\<close>

type_synonym 'a outcome = "((error + 'a) \<times> chip_simulator) option"

type_synonym simulate_fn = "chip_simulator \<Rightarrow> chip_definition \<Rightarrow> signals \<Rightarrow> signals outcome"

text \<open>
  \<open>_simulate_custom\<close>. The first loop builds \<open>sub_inputs\<close> and \<open>output_mappings\<close>, a
  dictionary read back in insertion order, hence an association list. The second loop
  writes the outputs of the sub-chip to \<open>self.signal_values\<close> as the recursive call
  left it; its accumulator is \<open>(changed, signal_values)\<close>. The recursive call
  \<open>self.simulate\<close> is the argument \<open>sim\<close>.
\<close>

fun gather_custom ::
  "signals \<Rightarrow> chip_definition \<Rightarrow> connection list \<Rightarrow>
   signals \<times> (string \<times> string) list \<Rightarrow> signals \<times> (string \<times> string) list" where
  "gather_custom sv chip_def [] acc = acc"
| "gather_custom sv chip_def (conn # conns) (sub_inputs, output_mappings) =
     gather_custom sv chip_def conns
       (if destination conn \<in> set (inputs chip_def)
        then (sub_inputs(destination conn \<mapsto> dict_get sv (source conn) 0), output_mappings)
        else if destination conn \<in> set (outputs chip_def)
        then (sub_inputs, AList.update (destination conn) (source conn) output_mappings)
        else (sub_inputs, output_mappings))"

fun map_outputs ::
  "signals \<Rightarrow> (string \<times> string) list \<Rightarrow> bool \<times> signals \<Rightarrow> bool \<times> signals" where
  "map_outputs sub_outputs [] acc = acc"
| "map_outputs sub_outputs ((sub_output, parent_signal) # rest) (changed, sv) =
     (let new_val = dict_get sub_outputs sub_output 0;
          old_val = dict_get sv parent_signal 0
      in map_outputs sub_outputs rest
           (if old_val \<noteq> new_val then (True, sv(parent_signal \<mapsto> new_val)) else (changed, sv)))"

definition simulate_custom ::
  "files \<Rightarrow> simulate_fn \<Rightarrow> chip_instance \<Rightarrow> chip_simulator \<Rightarrow> bool outcome" where
  "simulate_custom fs sim part st =
     (case get_chip_definition fs (parser st) (chip_type part) of
        (Inl e, p') \<Rightarrow> Some (Inl e, st\<lparr>parser := p'\<rparr>)
      | (Inr None, p') \<Rightarrow>
          Some (Inl (ValueError (''Unknown chip type: '' @ chip_type part)), st\<lparr>parser := p'\<rparr>)
      | (Inr (Some chip_def), p') \<Rightarrow>
          let st1 = st\<lparr>parser := p'\<rparr>;
              (sub_inputs, output_mappings) =
                gather_custom (signal_values st1) chip_def (connections part) (Map.empty, [])
          in (case sim st1 chip_def sub_inputs of
                None \<Rightarrow> None
              | Some (Inl e, st2) \<Rightarrow> Some (Inl e, st2)
              | Some (Inr sub_outputs, st2) \<Rightarrow>
                  let (changed, sv) =
                        map_outputs sub_outputs output_mappings (False, signal_values st2)
                  in Some (Inr changed, st2\<lparr>signal_values := sv\<rparr>)))"

definition simulate_part ::
  "files \<Rightarrow> simulate_fn \<Rightarrow> chip_instance \<Rightarrow> chip_simulator \<Rightarrow> bool outcome" where
  "simulate_part fs sim part st =
     (if chip_type part \<in> dom built_in_chips
      then Some (apfst Inr (simulate_builtin_part part st))
      else simulate_custom fs sim part st)"

text \<open>One pass of the inner loop of \<open>simulate\<close> over the parts, in declaration order.\<close>

fun simulate_parts ::
  "files \<Rightarrow> simulate_fn \<Rightarrow> chip_instance list \<Rightarrow> bool \<Rightarrow> chip_simulator \<Rightarrow> bool outcome" where
  "simulate_parts fs sim [] changed st = Some (Inr changed, st)"
| "simulate_parts fs sim (part # rest) changed st =
     (case simulate_part fs sim part st of
        None \<Rightarrow> None
      | Some (Inl e, st') \<Rightarrow> Some (Inl e, st')
      | Some (Inr c, st') \<Rightarrow> simulate_parts fs sim rest (changed \<or> c) st')"

text \<open>
  The outer loop \<open>for iteration in range(self.max_iterations)\<close>: \<open>k\<close> passes are left
  and \<open>iteration\<close> passes are done. The value returned is the number of passes done
  when the loop ends; the code does not return it.
\<close>

fun iterate ::
  "files \<Rightarrow> simulate_fn \<Rightarrow> chip_instance list \<Rightarrow> nat \<Rightarrow> nat \<Rightarrow> chip_simulator \<Rightarrow> nat outcome" where
  "iterate fs sim ps 0 iteration st = Some (Inr iteration, st)"
| "iterate fs sim ps (Suc k) iteration st =
     (case simulate_parts fs sim ps False st of
        None \<Rightarrow> None
      | Some (Inl e, st') \<Rightarrow> Some (Inl e, st')
      | Some (Inr changed, st') \<Rightarrow>
          if \<not> changed then Some (Inr (Suc iteration), st')
          else iterate fs sim ps k (Suc iteration) st')"

text \<open>
  The start of a composite simulation: \<open>self.signal_values\<close> is replaced by a new
  dictionary holding the inputs, then every internal pin is set to 0, then every output
  not yet present is set to 0.
\<close>

definition init_signals :: "chip_definition \<Rightarrow> signals \<Rightarrow> signals" where
  "init_signals chip_def ins =
     (let sv1 = Map.empty ++ ins;
          sv2 = override_on sv1 (\<lambda>pin. Some 0) (internal_pins chip_def)
      in foldl (\<lambda>sv pin. if sv pin = None then sv(pin \<mapsto> 0) else sv) sv2 (outputs chip_def))"

definition extract_outputs :: "chip_definition \<Rightarrow> signals \<Rightarrow> signals" where
  "extract_outputs chip_def sv =
     foldl (\<lambda>outs output_pin. outs(output_pin \<mapsto> dict_get sv output_pin 0))
       Map.empty (outputs chip_def)"

definition simulate_body ::
  "files \<Rightarrow> simulate_fn \<Rightarrow> chip_simulator \<Rightarrow> chip_definition \<Rightarrow> signals \<Rightarrow> signals outcome" where
  "simulate_body fs sim st chip_def ins =
     (if name chip_def \<in> dom built_in_chips \<and> parts chip_def = []
      then Some (Inr (simulate_builtin_chip chip_def ins), st)
      else (case iterate fs sim (parts chip_def) max_iterations 0
                   (st\<lparr>signal_values := init_signals chip_def ins\<rparr>) of
              None \<Rightarrow> None
            | Some (Inl e, st') \<Rightarrow> Some (Inl e, st')
            | Some (Inr n, st') \<Rightarrow>
                Some (Inr (extract_outputs chip_def (signal_values st')), st')))"

text \<open>
  \<open>simulate\<close>. The first argument bounds the depth of the calls of \<open>simulate\<close> inside
  each other; a call that needs a deeper nesting has the value \<open>None\<close>.
\<close>

fun simulate ::
  "files \<Rightarrow> nat \<Rightarrow> chip_simulator \<Rightarrow> chip_definition \<Rightarrow> signals \<Rightarrow> signals outcome" where
  "simulate fs 0 st chip_def ins = None"
| "simulate fs (Suc depth) st chip_def ins =
     simulate_body fs (simulate fs depth) st chip_def ins"

text \<open>What a call returns or raises, without the simulator it leaves.\<close>

definition result :: "'a outcome \<Rightarrow> (error + 'a) option" where
  "result r = map_option fst r"

section \<open>Chips of the test suite\<close>

text \<open>
  \<open>And\<close> from \<open>Nand\<close> and \<open>Not\<close>, \<open>Xor\<close> from \<open>Not\<close>, \<open>And\<close> and \<open>Or\<close>, and
  \<open>HalfAdder\<close> from \<open>Xor\<close> and \<open>And\<close>, as tests/test\_integration.py writes them and
  the parser builds them.
\<close>

definition and_chip :: chip_definition where
  "and_chip =
     \<lparr>name = ''And'', inputs = [''a'', ''b''], outputs = [''out''],
      parts =
        [ChipInstance ''Nand'' ''Nand_0''
           [Connection ''a'' ''a'', Connection ''b'' ''b'', Connection ''nandOut'' ''out''],
         ChipInstance ''Not'' ''Not_1''
           [Connection ''nandOut'' ''in'', Connection ''out'' ''out'']],
      internal_pins = {''nandOut''}\<rparr>"

definition xor_chip :: chip_definition where
  "xor_chip =
     \<lparr>name = ''Xor'', inputs = [''a'', ''b''], outputs = [''out''],
      parts =
        [ChipInstance ''Not'' ''Not_0'' [Connection ''a'' ''in'', Connection ''nota'' ''out''],
         ChipInstance ''Not'' ''Not_1'' [Connection ''b'' ''in'', Connection ''notb'' ''out''],
         ChipInstance ''And'' ''And_2''
           [Connection ''a'' ''a'', Connection ''notb'' ''b'', Connection ''aAndNotb'' ''out''],
         ChipInstance ''And'' ''And_3''
           [Connection ''nota'' ''a'', Connection ''b'' ''b'', Connection ''notaAndb'' ''out''],
         ChipInstance ''Or'' ''Or_4''
           [Connection ''aAndNotb'' ''a'', Connection ''notaAndb'' ''b'',
            Connection ''out'' ''out'']],
      internal_pins = {''nota'', ''notb'', ''aAndNotb'', ''notaAndb''}\<rparr>"

definition half_adder :: chip_definition where
  "half_adder =
     \<lparr>name = ''HalfAdder'', inputs = [''a'', ''b''], outputs = [''sum'', ''carry''],
      parts =
        [ChipInstance ''Xor'' ''Xor_0''
           [Connection ''a'' ''a'', Connection ''b'' ''b'', Connection ''sum'' ''out''],
         ChipInstance ''And'' ''And_1''
           [Connection ''a'' ''a'', Connection ''b'' ''b'', Connection ''carry'' ''out'']],
      internal_pins = {}\<rparr>"

text \<open>
  The buffer of tests/test\_simulator.py (two \<open>Not\<close> gates in a chain), and a chip that
  uses it as a sub-chip under signal names of its own:
  \<^verbatim>\<open>CHIP Probe { IN x; OUT y, z; PARTS: Buffer(in=x, out=y); Not(in=x, out=z); }\<close>
\<close>

definition buffer_chip :: chip_definition where
  "buffer_chip =
     \<lparr>name = ''Buffer'', inputs = [''in''], outputs = [''out''],
      parts =
        [ChipInstance ''Not'' ''Not_0'' [Connection ''in'' ''in'', Connection ''temp'' ''out''],
         ChipInstance ''Not'' ''Not_1'' [Connection ''temp'' ''in'', Connection ''out'' ''out'']],
      internal_pins = {''temp''}\<rparr>"

definition probe_chip :: chip_definition where
  "probe_chip =
     \<lparr>name = ''Probe'', inputs = [''x''], outputs = [''y'', ''z''],
      parts =
        [ChipInstance ''Buffer'' ''Buffer_0'' [Connection ''x'' ''in'', Connection ''y'' ''out''],
         ChipInstance ''Not'' ''Not_1'' [Connection ''x'' ''in'', Connection ''z'' ''out'']],
      internal_pins = {}\<rparr>"

definition buffer_simulator :: chip_simulator where
  "buffer_simulator =
     ChipSimulator (init_parser\<lparr>chips_cache := (chips_cache init_parser)(''Buffer'' \<mapsto> buffer_chip)\<rparr>)"

text \<open>The source texts of \<open>And\<close> and \<open>Xor\<close>, one string per line.\<close>

definition hdl_text :: "string list \<Rightarrow> string" where
  "hdl_text ls = concat (map (\<lambda>l. l @ [newline]) ls)"

definition and_hdl :: string where
  "and_hdl = hdl_text
     [''CHIP And {'',
      ''    IN a, b;'',
      ''    OUT out;'',
      ''    PARTS:'',
      ''    Nand(a=a, b=b, out=nandOut);'',
      ''    Not(in=nandOut, out=out);'',
      ''}'']"

definition xor_hdl :: string where
  "xor_hdl = hdl_text
     [''// exclusive or'',
      ''CHIP Xor {'',
      ''    IN a, b;'',
      ''    OUT out;'',
      [],
      ''    PARTS:'',
      ''    Not(in=a, out=nota);'',
      ''    Not(in=b, out=notb);'',
      ''    And(a=a, b=notb, out=aAndNotb);'',
      ''    And(a=nota, b=b, out=notaAndb);'',
      ''    Or(a=aAndNotb, b=notaAndb, out=out);'',
      ''}'']"

text \<open>
  A source unit with no chip block (the text of the parser's format test), and a chip
  with a part of a type that is neither a primitive nor registered:
  \<^verbatim>\<open>CHIP Wrapper { IN a; OUT out; PARTS: Not(in=a, out=w); Mystery(in=w, out=out); }\<close>
\<close>

definition broken_files :: files where
  "broken_files = [''Broken.hdl'' \<mapsto> ''This is not valid HDL'']"

definition xor_files :: files where
  "xor_files = [''Xor.hdl'' \<mapsto> xor_hdl]"

definition wrapper_chip :: chip_definition where
  "wrapper_chip =
     \<lparr>name = ''Wrapper'', inputs = [''a''], outputs = [''out''],
      parts =
        [ChipInstance ''Not'' ''Not_0'' [Connection ''a'' ''in'', Connection ''w'' ''out''],
         ChipInstance ''Mystery'' ''Mystery_1''
           [Connection ''w'' ''in'', Connection ''out'' ''out'']],
      internal_pins = {''w''}\<rparr>"

text \<open>
  A chip whose only part has the type \<open>Broken\<close>, the name of the unit with no chip
  block:
  \<^verbatim>\<open>CHIP Holder { IN a; OUT out; PARTS: Broken(in=a, out=out); }\<close>
\<close>

definition holder_chip :: chip_definition where
  "holder_chip =
     \<lparr>name = ''Holder'', inputs = [''a''], outputs = [''out''],
      parts =
        [ChipInstance ''Broken'' ''Broken_0''
           [Connection ''a'' ''in'', Connection ''out'' ''out'']],
      internal_pins = {}\<rparr>"

text \<open>
  For the statement of the bound on the passes: \<open>n\<close> passes in a row, whatever they
  report, with the flags they report. And a chip that never settles:
  \<^verbatim>\<open>CHIP Osc { IN a; OUT out; PARTS: Not(in=out, out=out); }\<close>
\<close>

fun run_passes ::
  "files \<Rightarrow> simulate_fn \<Rightarrow> chip_instance list \<Rightarrow> nat \<Rightarrow> chip_simulator \<Rightarrow> bool list outcome" where
  "run_passes fs sim ps 0 st = Some (Inr [], st)"
| "run_passes fs sim ps (Suc n) st =
     (case simulate_parts fs sim ps False st of
        None \<Rightarrow> None
      | Some (Inl e, st') \<Rightarrow> Some (Inl e, st')
      | Some (Inr c, st') \<Rightarrow>
          (case run_passes fs sim ps n st' of
             None \<Rightarrow> None
           | Some (Inl e, st'') \<Rightarrow> Some (Inl e, st'')
           | Some (Inr cs, st'') \<Rightarrow> Some (Inr (c # cs), st'')))"

definition osc_chip :: chip_definition where
  "osc_chip =
     \<lparr>name = ''Osc'', inputs = [''a''], outputs = [''out''],
      parts =
        [ChipInstance ''Not'' ''Not_0'' [Connection ''out'' ''in'', Connection ''out'' ''out'']],
      internal_pins = {}\<rparr>"

text \<open>
  For the statement of determinism. Two parsers resolve alike when
  \<open>get_chip_definition\<close> returns the same for every name on both. The units are well
  named when every unit \<open>n.hdl\<close> that parses declares the chip \<open>n\<close>.
  \<open>state_after\<close> is the simulator a call leaves.
\<close>

definition same_resolution :: "files \<Rightarrow> hdl_parser \<Rightarrow> hdl_parser \<Rightarrow> bool" where
  "same_resolution fs p q =
     (\<forall>n. fst (get_chip_definition fs p n) = fst (get_chip_definition fs q n))"

definition well_named :: "files \<Rightarrow> bool" where
  "well_named fs =
     (\<forall>n content d. fs (n @ ''.hdl'') = Some content \<longrightarrow>
        fst (parse_hdl init_parser content None) = Inr d \<longrightarrow> name d = n)"

definition state_after :: "'a outcome \<Rightarrow> chip_simulator \<Rightarrow> chip_simulator" where
  "state_after r st = (case r of None \<Rightarrow> st | Some (v, st') \<Rightarrow> st')"

text \<open>
  A unit \<open>Loader.hdl\<close> whose text declares the chip \<open>Gate\<close>, an inverter; a registry
  where \<open>Gate\<close> is a chip with the output \<open>q\<close> and the single part
  \<open>Loader(in=in)\<close>; and the chip
  \<^verbatim>\<open>CHIP Relay { IN a; OUT o; PARTS: Gate(in=a, out=o); }\<close>
\<close>

definition loader_hdl :: string where
  "loader_hdl = ''CHIP Gate { IN in; OUT out; PARTS: Not(in=in, out=out); }''"

definition loader_files :: files where
  "loader_files = [''Loader.hdl'' \<mapsto> loader_hdl]"

definition gate_inverter :: chip_definition where
  "gate_inverter =
     \<lparr>name = ''Gate'', inputs = [''in''], outputs = [''out''],
      parts =
        [ChipInstance ''Not'' ''Not_0'' [Connection ''in'' ''in'', Connection ''out'' ''out'']],
      internal_pins = {}\<rparr>"

definition gate_stub :: chip_definition where
  "gate_stub =
     \<lparr>name = ''Gate'', inputs = [''in''], outputs = [''q''],
      parts = [ChipInstance ''Loader'' ''Loader_0'' [Connection ''in'' ''in'']],
      internal_pins = {}\<rparr>"

definition relay_chip :: chip_definition where
  "relay_chip =
     \<lparr>name = ''Relay'', inputs = [''a''], outputs = [''o''],
      parts = [ChipInstance ''Gate'' ''Gate_0'' [Connection ''a'' ''in'', Connection ''o'' ''out'']],
      internal_pins = {}\<rparr>"

definition stub_simulator :: chip_simulator where
  "stub_simulator =
     ChipSimulator (init_parser\<lparr>chips_cache := (chips_cache init_parser)(''Gate'' \<mapsto> gate_stub)\<rparr>)"

text \<open>
  A call keeps the registry when the parser it leaves resolves as the one it found and
  its cache extends the old one. Two simulators are alike when they hold the same signal
  values and their parsers resolve alike; two outcomes are alike when both are missing,
  or both return or raise the same and leave simulators that are alike.
\<close>

definition grows :: "files \<Rightarrow> hdl_parser \<Rightarrow> hdl_parser \<Rightarrow> bool" where
  "grows fs p p' = (same_resolution fs p p' \<and> chips_cache p \<subseteq>\<^sub>m chips_cache p')"

definition keeps :: "files \<Rightarrow> chip_simulator \<Rightarrow> 'a outcome \<Rightarrow> bool" where
  "keeps fs st r =
     (case r of None \<Rightarrow> True | Some (v, st') \<Rightarrow> grows fs (parser st) (parser st'))"

definition sim_eq :: "files \<Rightarrow> chip_simulator \<Rightarrow> chip_simulator \<Rightarrow> bool" where
  "sim_eq fs st t =
     (signal_values st = signal_values t \<and> same_resolution fs (parser st) (parser t))"

definition out_eq :: "files \<Rightarrow> 'a outcome \<Rightarrow> 'a outcome \<Rightarrow> bool" where
  "out_eq fs r1 r2 =
     (case r1 of
        None \<Rightarrow> r2 = None
      | Some (v1, s1) \<Rightarrow>
          (case r2 of None \<Rightarrow> False | Some (v2, s2) \<Rightarrow> v1 = v2 \<and> sim_eq fs s1 s2))"

text \<open>
  The texts that the parser turns into \<open>Buffer\<close>, \<open>Probe\<close>, the first \<open>Gate\<close> and
  \<open>Relay\<close>.
\<close>

definition buffer_hdl :: string where
  "buffer_hdl =
     ''CHIP Buffer { IN in; OUT out; PARTS: Not(in=in, out=temp); Not(in=temp, out=out); }''"

definition probe_hdl :: string where
  "probe_hdl = ''CHIP Probe { IN x; OUT y, z; PARTS: Buffer(in=x, out=y); Not(in=x, out=z); }''"

definition stub_hdl :: string where
  "stub_hdl = ''CHIP Gate { IN in; OUT q; PARTS: Loader(in=in); }''"

definition relay_hdl :: string where
  "relay_hdl = ''CHIP Relay { IN a; OUT o; PARTS: Gate(in=a, out=o); }''"

text \<open>
  The texts of \<open>Holder\<close> and \<open>HalfAdder\<close>, and the simulator whose registry holds
  \<open>Xor\<close> beside the primitives.
\<close>

definition holder_hdl :: string where
  "holder_hdl = ''CHIP Holder { IN a; OUT out; PARTS: Broken(in=a, out=out); }''"

definition half_adder_hdl :: string where
  "half_adder_hdl = hdl_text
     [''CHIP HalfAdder {'',
      ''    IN a, b;'',
      ''    OUT sum, carry;'',
      [],
      ''    PARTS:'',
      ''    Xor(a=a, b=b, out=sum);'',
      ''    And(a=a, b=b, out=carry);'',
      ''}'']"

definition xor_simulator :: chip_simulator where
  "xor_simulator =
     ChipSimulator (init_parser\<lparr>chips_cache := (chips_cache init_parser)(''Xor'' \<mapsto> xor_chip)\<rparr>)"

section \<open>Evaluation lemmas\<close>

text \<open>
  What \<open>parse_hdl\<close> returns does not depend on the parser it is called on, and the
  cache entry it writes is keyed by the name of the definition.
\<close>

lemma parse_hdl_frame:
  "parse_hdl p content e =
     (case fst (parse_hdl init_parser content None) of
        Inl err \<Rightarrow> (Inl err, p)
      | Inr d \<Rightarrow> (Inr d, p\<lparr>chips_cache := (chips_cache p)(name d \<mapsto> d)\<rparr>))"
  by (simp add: parse_hdl_def Let_def split: option.splits prod.splits)

lemma parse_and_hdl: "fst (parse_hdl init_parser and_hdl None) = Inr and_chip"
  by code_simp

lemma parse_xor_hdl: "fst (parse_hdl init_parser xor_hdl None) = Inr xor_chip"
  by code_simp

text \<open>
  The chips and simulators of the examples are what the parser builds from their texts.
\<close>

lemma parse_buffer_hdl: "fst (parse_hdl init_parser buffer_hdl None) = Inr buffer_chip"
  by code_simp

lemma parse_probe_hdl: "fst (parse_hdl init_parser probe_hdl None) = Inr probe_chip"
  by code_simp

lemma parse_stub_hdl: "fst (parse_hdl init_parser stub_hdl None) = Inr gate_stub"
  by code_simp

lemma parse_relay_hdl: "fst (parse_hdl init_parser relay_hdl None) = Inr relay_chip"
  by code_simp

lemma buffer_simulator_parsed:
  "buffer_simulator = ChipSimulator (snd (parse_hdl init_parser buffer_hdl None))"
  by (subst parse_hdl_frame) (simp add: parse_buffer_hdl buffer_simulator_def buffer_chip_def)

lemma stub_simulator_parsed:
  "stub_simulator = ChipSimulator (snd (parse_hdl init_parser stub_hdl None))"
  by (subst parse_hdl_frame) (simp add: parse_stub_hdl stub_simulator_def gate_stub_def)

lemma parse_holder_hdl: "fst (parse_hdl init_parser holder_hdl None) = Inr holder_chip"
  by code_simp

lemma parse_half_adder_hdl: "fst (parse_hdl init_parser half_adder_hdl None) = Inr half_adder"
  by code_simp

lemma xor_simulator_parsed:
  "xor_simulator = ChipSimulator (snd (parse_hdl init_parser xor_hdl None))"
  by (subst parse_hdl_frame) (simp add: parse_xor_hdl xor_simulator_def xor_chip_def)

lemmas gate_defs =
  simulate_part_def simulate_custom_def simulate_builtin_part_def evaluate_builtin_def
  dict_get_def built_in_chips_def ChipDefinition_def Connection_def ChipInstance_def Let_def

lemmas part_defs = gate_defs get_chip_definition_def

lemmas body_defs =
  simulate_body_def init_signals_def extract_outputs_def simulate_builtin_chip_def result_def

lemma iterate_unfold:
  "0 < k \<Longrightarrow> iterate fs sim ps k i st =
     (case simulate_parts fs sim ps False st of
        None \<Rightarrow> None
      | Some (Inl e, st') \<Rightarrow> Some (Inl e, st')
      | Some (Inr changed, st') \<Rightarrow>
          if \<not> changed then Some (Inr (Suc i), st')
          else iterate fs sim ps (k - 1) (Suc i) st')"
  by (cases k) (auto split: option.splits sum.splits prod.splits)

text \<open>A pass that reports a change and leaves the simulator as it found it repeats
  until the passes run out.\<close>

lemma iterate_fixed_point:
  "simulate_parts fs sim ps False st = Some (Inr True, st) \<Longrightarrow>
   iterate fs sim ps k i st = Some (Inr (i + k), st)"
  by (induction k arbitrary: i) auto

section \<open>The depth of the calls\<close>

text \<open>
  A call that returns or raises within a given depth does the same within any greater
  depth: the value \<open>None\<close> stands for a nesting that was cut, and never turns a result
  into another one.
\<close>

lemma simulate_custom_mono:
  assumes "\<And>s d ins x. sim s d ins = Some x \<Longrightarrow> sim' s d ins = Some x"
    and "simulate_custom fs sim part st = Some x"
  shows "simulate_custom fs sim' part st = Some x"
proof -
  obtain r p' where g: "get_chip_definition fs (parser st) (chip_type part) = (r, p')"
    by (cases "get_chip_definition fs (parser st) (chip_type part)")
  show ?thesis
  proof (cases r)
    case (Inl e)
    with g assms(2) show ?thesis by (simp add: simulate_custom_def)
  next
    case (Inr od)
    show ?thesis
    proof (cases od)
      case None
      with Inr g assms(2) show ?thesis by (simp add: simulate_custom_def)
    next
      case (Some chip_def)
      obtain sub_inputs output_mappings where
        gc: "gather_custom (signal_values st) chip_def (connections part) (Map.empty, []) =
               (sub_inputs, output_mappings)"
        by (cases "gather_custom (signal_values st) chip_def (connections part) (Map.empty, [])")
      from assms(2) Inr Some g gc obtain y where
        y: "sim (st\<lparr>parser := p'\<rparr>) chip_def sub_inputs = Some y"
        by (auto simp: simulate_custom_def split: option.splits)
      from assms(1) [OF y] y assms(2) Inr Some g gc show ?thesis
        by (simp add: simulate_custom_def)
    qed
  qed
qed

lemma simulate_parts_mono:
  assumes "\<And>s d ins x. sim s d ins = Some x \<Longrightarrow> sim' s d ins = Some x"
  shows "simulate_parts fs sim ps changed st = Some x \<Longrightarrow>
         simulate_parts fs sim' ps changed st = Some x"
proof (induction ps arbitrary: changed st)
  case Nil
  then show ?case by simp
next
  case (Cons part ps)
  from Cons.prems obtain y where y: "simulate_part fs sim part st = Some y"
    by (auto split: option.splits)
  then have y': "simulate_part fs sim' part st = Some y"
    using simulate_custom_mono [OF assms] by (auto simp: simulate_part_def split: if_splits)
  show ?case
    using Cons.prems Cons.IH y y'
    by (auto split: option.splits sum.splits prod.splits)
qed

lemma iterate_mono:
  assumes "\<And>s d ins x. sim s d ins = Some x \<Longrightarrow> sim' s d ins = Some x"
  shows "iterate fs sim ps k i st = Some x \<Longrightarrow> iterate fs sim' ps k i st = Some x"
proof (induction k arbitrary: i st)
  case 0
  then show ?case by simp
next
  case (Suc k)
  from Suc.prems obtain y where y: "simulate_parts fs sim ps False st = Some y"
    by (auto split: option.splits)
  from simulate_parts_mono [OF assms y] have y': "simulate_parts fs sim' ps False st = Some y" .
  show ?case
    using Suc.prems Suc.IH y y'
    by (auto split: option.splits sum.splits prod.splits if_splits)
qed

lemma simulate_mono:
  "simulate fs depth st d ins = Some x \<Longrightarrow> simulate fs (Suc depth) st d ins = Some x"
proof (induction depth arbitrary: st d ins x)
  case 0
  then show ?case by simp
next
  case (Suc depth)
  let ?st0 = "st\<lparr>signal_values := init_signals d ins\<rparr>"
  show ?case
  proof (cases "name d \<in> dom built_in_chips \<and> parts d = []")
    case True
    with Suc.prems show ?thesis by (simp add: simulate_body_def)
  next
    case False
    then have body: "simulate_body fs sim st d ins =
        (case iterate fs sim (parts d) max_iterations 0 ?st0 of
           None \<Rightarrow> None
         | Some (Inl e, s) \<Rightarrow> Some (Inl e, s)
         | Some (Inr n, s) \<Rightarrow> Some (Inr (extract_outputs d (signal_values s)), s))" for sim
      by (auto simp: simulate_body_def)
    from Suc.prems have run: "simulate_body fs (simulate fs depth) st d ins = Some x"
      by simp
    then obtain y where
      y: "iterate fs (simulate fs depth) (parts d) max_iterations 0 ?st0 = Some y"
      unfolding body by (auto split: option.splits)
    have "iterate fs (simulate fs (Suc depth)) (parts d) max_iterations 0 ?st0 = Some y"
      using Suc.IH y by (rule iterate_mono)
    with y run have "simulate_body fs (simulate fs (Suc depth)) st d ins = Some x"
      unfolding body by simp
    then show ?thesis
      by simp
  qed
qed

lemma simulate_deeper:
  "simulate fs depth st d ins = Some x \<Longrightarrow> simulate fs (depth + k) st d ins = Some x"
  by (induction k) (simp_all add: simulate_mono del: simulate.simps)


section \<open>Primitive gates\<close>

text \<open>
  C4. Simulating a primitive definition returns exactly the mapping of \<open>out\<close> to the
  value of the truth table: 0 for \<open>Nand\<close> iff both \<open>a\<close> and \<open>b\<close> are set, 1 for \<open>And\<close>
  iff both are set, 1 for \<open>Or\<close> iff one of them is set, 0 for \<open>Not\<close> iff \<open>in\<close> is set.
  The inputs are read with \<open>dict_get _ _ 0\<close>, so a pin missing from the assignment
  counts as 0; the simulator is left as it was.
\<close>

theorem primitive_truth_tables:
  "simulate fs (Suc depth) st (ChipDefinition ''Nand'' [''a'', ''b''] [''out'']) ins =
     Some (Inr [''out'' \<mapsto>
                 if dict_get ins ''a'' 0 \<noteq> 0 \<and> dict_get ins ''b'' 0 \<noteq> 0 then 0 else 1], st)
   \<and> simulate fs (Suc depth) st (ChipDefinition ''And'' [''a'', ''b''] [''out'']) ins =
     Some (Inr [''out'' \<mapsto>
                 if dict_get ins ''a'' 0 \<noteq> 0 \<and> dict_get ins ''b'' 0 \<noteq> 0 then 1 else 0], st)
   \<and> simulate fs (Suc depth) st (ChipDefinition ''Or'' [''a'', ''b''] [''out'']) ins =
     Some (Inr [''out'' \<mapsto>
                 if dict_get ins ''a'' 0 \<noteq> 0 \<or> dict_get ins ''b'' 0 \<noteq> 0 then 1 else 0], st)
   \<and> simulate fs (Suc depth) st (ChipDefinition ''Not'' [''in''] [''out'']) ins =
     Some (Inr [''out'' \<mapsto> if dict_get ins ''in'' 0 \<noteq> 0 then 0 else 1], st)
   \<and> dict_get (ins(pin := None)) pin 0 = 0"
  by (simp add: simulate_body_def simulate_builtin_chip_def built_in_chips_def
      ChipDefinition_def dict_get_def)

theorem primitive_truth_tables_witness:
  "simulate Map.empty (Suc 0) (ChipSimulator init_parser)
       (ChipDefinition ''Nand'' [''a'', ''b''] [''out'']) [''a'' \<mapsto> 1, ''b'' \<mapsto> 1] =
     Some (Inr [''out'' \<mapsto> 0], ChipSimulator init_parser)
   \<and> simulate Map.empty (Suc 0) (ChipSimulator init_parser)
       (ChipDefinition ''And'' [''a'', ''b''] [''out'']) [''a'' \<mapsto> 1, ''b'' \<mapsto> 1] =
     Some (Inr [''out'' \<mapsto> 1], ChipSimulator init_parser)
   \<and> simulate Map.empty (Suc 0) (ChipSimulator init_parser)
       (ChipDefinition ''Or'' [''a'', ''b''] [''out'']) [''a'' \<mapsto> 0, ''b'' \<mapsto> 1] =
     Some (Inr [''out'' \<mapsto> 1], ChipSimulator init_parser)
   \<and> simulate Map.empty (Suc 0) (ChipSimulator init_parser)
       (ChipDefinition ''Or'' [''a'', ''b''] [''out'']) [''b'' \<mapsto> 0] =
     Some (Inr [''out'' \<mapsto> 0], ChipSimulator init_parser)
   \<and> simulate Map.empty (Suc 0) (ChipSimulator init_parser)
       (ChipDefinition ''Not'' [''in''] [''out'']) Map.empty =
     Some (Inr [''out'' \<mapsto> 1], ChipSimulator init_parser)"
  using primitive_truth_tables [of Map.empty 0 "ChipSimulator init_parser" "[''a'' \<mapsto> 1, ''b'' \<mapsto> 1]"]
    primitive_truth_tables [of Map.empty 0 "ChipSimulator init_parser" "[''a'' \<mapsto> 0, ''b'' \<mapsto> 1]"]
    primitive_truth_tables [of Map.empty 0 "ChipSimulator init_parser" "[''b'' \<mapsto> 0]"]
    primitive_truth_tables [of Map.empty 0 "ChipSimulator init_parser" Map.empty]
  by (simp add: dict_get_def)

section \<open>Composite chips\<close>

text \<open>
  C3. For all values \<open>x\<close> and \<open>y\<close> of the inputs, the \<open>And\<close> chip built from \<open>Nand\<close>
  and \<open>Not\<close> returns what the primitive \<open>And\<close> returns, and the \<open>Xor\<close> chip built
  from \<open>Not\<close>, \<open>And\<close> and \<open>Or\<close> returns 0, 1, 1, 0 on (0,0), (0,1), (1,0), (1,1).
\<close>

theorem composition_correct:
  "result (simulate fs (Suc depth) st and_chip [''a'' \<mapsto> x, ''b'' \<mapsto> y]) =
     result (simulate fs (Suc depth) st (ChipDefinition ''And'' [''a'', ''b''] [''out''])
               [''a'' \<mapsto> x, ''b'' \<mapsto> y])
   \<and> result (simulate fs (Suc depth) st xor_chip [''a'' \<mapsto> 0, ''b'' \<mapsto> 0]) =
       Some (Inr [''out'' \<mapsto> 0])
   \<and> result (simulate fs (Suc depth) st xor_chip [''a'' \<mapsto> 0, ''b'' \<mapsto> 1]) =
       Some (Inr [''out'' \<mapsto> 1])
   \<and> result (simulate fs (Suc depth) st xor_chip [''a'' \<mapsto> 1, ''b'' \<mapsto> 0]) =
       Some (Inr [''out'' \<mapsto> 1])
   \<and> result (simulate fs (Suc depth) st xor_chip [''a'' \<mapsto> 1, ''b'' \<mapsto> 1]) =
       Some (Inr [''out'' \<mapsto> 0])"
  by (simp add: part_defs body_defs and_chip_def xor_chip_def max_iterations_def iterate_unfold)

text \<open>
  A composite chip whose first pass reports a change and ends in a simulator that every
  further pass reports a change on and leaves as it is: the loop runs all its passes and
  the outputs are read from that simulator. The second lemma is the same after two
  passes.
\<close>

lemma simulate_body_busy:
  assumes "\<not> (name d \<in> dom built_in_chips \<and> parts d = [])"
    and "simulate_parts fs sim (parts d) False (st\<lparr>signal_values := init_signals d ins\<rparr>) =
           Some (Inr True, st1)"
    and "simulate_parts fs sim (parts d) False st1 = Some (Inr True, st1)"
  shows "simulate_body fs sim st d ins =
           Some (Inr (extract_outputs d (signal_values st1)), st1)"
  using assms(1,2) iterate_fixed_point [OF assms(3), of 99 1]
  by (auto simp add: simulate_body_def max_iterations_def iterate_unfold [of 100])

lemma simulate_body_busy2:
  assumes "\<not> (name d \<in> dom built_in_chips \<and> parts d = [])"
    and "simulate_parts fs sim (parts d) False (st\<lparr>signal_values := init_signals d ins\<rparr>) =
           Some (Inr True, st1)"
    and "simulate_parts fs sim (parts d) False st1 = Some (Inr True, st2)"
    and "simulate_parts fs sim (parts d) False st2 = Some (Inr True, st2)"
  shows "simulate_body fs sim st d ins =
           Some (Inr (extract_outputs d (signal_values st2)), st2)"
  using assms(1,2,3) iterate_fixed_point [OF assms(4), of 98 "Suc (Suc 0)"]
  by (auto simp add: simulate_body_def max_iterations_def iterate_unfold [of 100]
      iterate_unfold [of 99])

lemmas half_adder_defs =
  part_defs body_defs half_adder_def xor_chip_def max_iterations_def iterate_unfold







section \<open>A sub-chip and the signals of the enclosing chip\<close>

lemma probe_run:
  assumes c: "chips_cache (parser st) ''Buffer'' = Some buffer_chip"
  shows "(case simulate_part fs (simulate fs (Suc depth))
             (ChipInstance ''Buffer'' ''Buffer_0'' [Connection ''x'' ''in'', Connection ''y'' ''out''])
             (st\<lparr>signal_values := init_signals probe_chip [''x'' \<mapsto> 1]\<rparr>) of
          Some (Inr changed, st') \<Rightarrow>
            map (signal_values st') [''x'', ''y'', ''z'', ''in'', ''temp'', ''out''] =
              [None, Some 1, None, Some 1, Some 0, Some 1]
        | _ \<Rightarrow> False)
       \<and> result (simulate fs (Suc (Suc depth)) st probe_chip [''x'' \<mapsto> 1]) =
           Some (Inr [''y'' \<mapsto> 0, ''z'' \<mapsto> 1])"
proof -
  note defs = part_defs body_defs probe_chip_def buffer_chip_def max_iterations_def iterate_unfold
  let ?sim = "simulate fs (Suc depth)"
  let ?ps = "parts probe_chip"
  let ?st1 = "st\<lparr>signal_values :=
                (override_on [''in'' \<mapsto> 1] (\<lambda>pin. Some 0) {''temp''})
                (''out'' \<mapsto> 1, ''y'' \<mapsto> 1, ''z'' \<mapsto> 1)\<rparr>"
  let ?st2 = "st\<lparr>signal_values :=
                (override_on [''in'' \<mapsto> 0] (\<lambda>pin. Some 0) {''temp''})
                (''out'' \<mapsto> 0, ''temp'' \<mapsto> 1, ''z'' \<mapsto> 1)\<rparr>"
  have p1: "simulate_parts fs ?sim ?ps False
              (st\<lparr>signal_values := init_signals probe_chip [''x'' \<mapsto> 1]\<rparr>) =
            Some (Inr True, ?st1)"
    using c by (simp add: defs)
  have p2: "simulate_parts fs ?sim ?ps False ?st1 = Some (Inr True, ?st2)"
    using c by (simp add: defs)
  have p3: "simulate_parts fs ?sim ?ps False ?st2 = Some (Inr True, ?st2)"
    using c by (simp add: defs)
  have "name probe_chip \<notin> dom built_in_chips"
    by (simp add: probe_chip_def built_in_chips_def)
  then have "simulate_body fs ?sim st probe_chip [''x'' \<mapsto> 1] =
          Some (Inr (extract_outputs probe_chip (signal_values ?st2)), ?st2)"
    by (intro simulate_body_busy2 [OF _ p1 p2 p3]) simp
  moreover have "extract_outputs probe_chip (signal_values ?st2) = [''y'' \<mapsto> 0, ''z'' \<mapsto> 1]"
    by (simp add: defs)
  ultimately have "result (simulate fs (Suc (Suc depth)) st probe_chip [''x'' \<mapsto> 1]) =
      Some (Inr [''y'' \<mapsto> 0, ''z'' \<mapsto> 1])"
    by (simp add: result_def)
  moreover have "(case simulate_part fs (simulate fs (Suc depth))
             (ChipInstance ''Buffer'' ''Buffer_0'' [Connection ''x'' ''in'', Connection ''y'' ''out''])
             (st\<lparr>signal_values := init_signals probe_chip [''x'' \<mapsto> 1]\<rparr>) of
          Some (Inr changed, st') \<Rightarrow>
            map (signal_values st') [''x'', ''y'', ''z'', ''in'', ''temp'', ''out''] =
              [None, Some 1, None, Some 1, Some 0, Some 1]
        | _ \<Rightarrow> False)"
    using c by (simp add: defs)
  ultimately show ?thesis
    by (rule conjI [rotated])
qed

text \<open>
  C1. The simulator keeps one dictionary \<open>signal_values\<close>, and a recursive call of
  \<open>simulate\<close> replaces it. On \<open>Probe\<close> with \<open>x = 1\<close>, after the part \<open>Buffer\<close> the
  dictionary is the one of the sub-chip (with \<open>in\<close> and \<open>temp\<close>) plus the output just
  written: the input \<open>x\<close> and the output \<open>z\<close> of the enclosing chip are gone. The gate
  \<open>Not(in=x, out=z)\<close> then reads \<open>x\<close> as 0, and so does \<open>Buffer\<close> in every later pass.
  The call returns \<open>y = 0, z = 1\<close>; a buffer and an inverter of \<open>x = 1\<close> give
  \<open>y = 1, z = 0\<close>.
\<close>

theorem sub_chip_replaces_signals:
  "(case simulate_part fs (simulate fs (Suc depth))
           (ChipInstance ''Buffer'' ''Buffer_0'' [Connection ''x'' ''in'', Connection ''y'' ''out''])
           (buffer_simulator\<lparr>signal_values := init_signals probe_chip [''x'' \<mapsto> 1]\<rparr>) of
      Some (Inr changed, st') \<Rightarrow>
        map (signal_values st') [''x'', ''y'', ''z'', ''in'', ''temp'', ''out''] =
          [None, Some 1, None, Some 1, Some 0, Some 1]
    | _ \<Rightarrow> False)
   \<and> result (simulate fs (Suc (Suc depth)) buffer_simulator probe_chip [''x'' \<mapsto> 1]) =
       Some (Inr [''y'' \<mapsto> 0, ''z'' \<mapsto> 1])"
  by (rule probe_run) (simp add: buffer_simulator_def ChipSimulator_def)

section \<open>The chip header and the expected name\<close>

text \<open>
  What a match of the \<open>CHIP\<close> pattern says about the text: the groups are the name and
  the body, between the pieces the pattern names.
\<close>

lemma strip_prefix_Some: "strip_prefix p cs = Some r \<Longrightarrow> cs = p @ r"
  by (induction p cs rule: strip_prefix.induct) (auto split: if_splits)

lemma dropWhile_neq_Cons:
  "x \<in> set xs \<Longrightarrow> \<exists>post. dropWhile (\<lambda>c. c \<noteq> x) xs = x # post"
  by (induction xs) auto

lemma match_chip_Some:
  assumes "match_chip cs = Some (n, body)"
  shows "\<exists>ws1 ws2 post. cs = ''CHIP'' @ ws1 @ n @ ws2 @ ''{'' @ body @ ''}'' @ post
           \<and> ws1 \<noteq> [] \<and> list_all is_space ws1 \<and> n \<noteq> [] \<and> list_all is_word n
           \<and> list_all is_space ws2 \<and> CHR ''}'' \<notin> set body"
proof -
  from assms obtain r1 where r1: "strip_prefix ''CHIP'' cs = Some r1"
    by (auto simp: match_chip_def split: option.splits)
  define ws1 where "ws1 = takeWhile is_space r1"
  define r2 where "r2 = dropWhile is_space r1"
  define ws2 where "ws2 = takeWhile is_space (dropWhile is_word r2)"
  from assms r1 obtain r3 where
    ne: "ws1 \<noteq> []" "takeWhile is_word r2 \<noteq> []" and
    r3: "dropWhile is_space (dropWhile is_word r2) = CHR ''{'' # r3" and
    cl: "CHR ''}'' \<in> set r3" and
    res: "n = takeWhile is_word r2" "body = takeWhile (\<lambda>x. x \<noteq> CHR ''}'') r3"
    by (auto simp: match_chip_def Let_def ws1_def r2_def split: option.splits if_splits list.splits)
  from cl obtain post where post: "dropWhile (\<lambda>c. c \<noteq> CHR ''}'') r3 = CHR ''}'' # post"
    using dropWhile_neq_Cons by fastforce
  have "cs = ''CHIP'' @ r1"
    using r1 by (rule strip_prefix_Some)
  also have "r1 = ws1 @ r2"
    by (simp add: ws1_def r2_def)
  also have "r2 = n @ dropWhile is_word r2"
    by (simp add: res)
  also have "dropWhile is_word r2 = ws2 @ CHR ''{'' # r3"
    unfolding ws2_def r3 [symmetric] by simp
  also have "r3 = body @ CHR ''}'' # post"
    unfolding res post [symmetric] by simp
  finally have "cs = ''CHIP'' @ ws1 @ n @ ws2 @ ''{'' @ body @ ''}'' @ post"
    by simp
  moreover have "list_all is_space ws1" "list_all is_word n" "list_all is_space ws2"
    "CHR ''}'' \<notin> set body"
    by (auto simp: ws1_def ws2_def res list_all_iff dest: set_takeWhileD)
  ultimately show ?thesis
    using ne res by blast
qed

lemma search_chip_Some:
  "search_chip cs = Some (n, body) \<Longrightarrow>
   \<exists>pre ws1 ws2 post. cs = pre @ ''CHIP'' @ ws1 @ n @ ws2 @ ''{'' @ body @ ''}'' @ post
     \<and> ws1 \<noteq> [] \<and> list_all is_space ws1 \<and> n \<noteq> [] \<and> list_all is_word n
     \<and> list_all is_space ws2 \<and> CHR ''}'' \<notin> set body"
proof (induction cs)
  case Nil
  then show ?case by (simp add: match_chip_def)
next
  case (Cons c cs)
  show ?case
  proof (cases "match_chip (c # cs)")
    case None
    with Cons.prems have "search_chip cs = Some (n, body)" by simp
    from Cons.IH [OF this] obtain pre ws1 ws2 post where
      "cs = pre @ ''CHIP'' @ ws1 @ n @ ws2 @ ''{'' @ body @ ''}'' @ post"
      "ws1 \<noteq> []" "list_all is_space ws1" "n \<noteq> []" "list_all is_word n"
      "list_all is_space ws2" "CHR ''}'' \<notin> set body"
      by blast
    then have "c # cs = (c # pre) @ ''CHIP'' @ ws1 @ n @ ws2 @ ''{'' @ body @ ''}'' @ post"
      by simp
    then show ?thesis
      using \<open>ws1 \<noteq> []\<close> \<open>list_all is_space ws1\<close> \<open>n \<noteq> []\<close> \<open>list_all is_word n\<close>
        \<open>list_all is_space ws2\<close> \<open>CHR ''}'' \<notin> set body\<close> by blast
  next
    case (Some m)
    with Cons.prems have "match_chip (c # cs) = Some (n, body)" by simp
    from match_chip_Some [OF this] obtain ws1 ws2 post where
      "c # cs = [] @ ''CHIP'' @ ws1 @ n @ ws2 @ ''{'' @ body @ ''}'' @ post"
      "ws1 \<noteq> []" "list_all is_space ws1" "n \<noteq> []" "list_all is_word n"
      "list_all is_space ws2" "CHR ''}'' \<notin> set body"
      by auto
    then show ?thesis by blast
  qed
qed

text \<open>
  C10. \<open>parse_hdl\<close> returns the same for any two values of \<open>expected_name\<close>. When
  it returns a definition, the name of the definition is the word that follows the
  keyword \<open>CHIP\<close> in the text without its comments (white space, the name, white space,
  then the braces around the body), and the parser it leaves differs from the one it was
  called on by the cache entry under that name; \<open>expected_name\<close> is not compared with
  it.
\<close>

theorem parse_hdl_ignores_expected_name:
  "parse_hdl p content e1 = parse_hdl p content e2
   \<and> (parse_hdl p content e1 = (Inr d, p') \<longrightarrow>
        (\<exists>pre ws1 ws2 body post.
            remove_comments content =
              pre @ ''CHIP'' @ ws1 @ name d @ ws2 @ ''{'' @ body @ ''}'' @ post
            \<and> ws1 \<noteq> [] \<and> list_all is_space ws1 \<and> name d \<noteq> [] \<and> list_all is_word (name d)
            \<and> list_all is_space ws2 \<and> CHR ''}'' \<notin> set body)
        \<and> p' = p\<lparr>chips_cache := (chips_cache p)(name d \<mapsto> d)\<rparr>)"
proof (intro conjI impI)
  show "parse_hdl p content e1 = parse_hdl p content e2"
    by (simp add: parse_hdl_def)
next
  assume ok: "parse_hdl p content e1 = (Inr d, p')"
  then obtain body where "search_chip (remove_comments content) = Some (name d, body)"
    by (auto simp: parse_hdl_def Let_def split: option.splits prod.splits)
  from search_chip_Some [OF this]
  show "\<exists>pre ws1 ws2 body post.
            remove_comments content =
              pre @ ''CHIP'' @ ws1 @ name d @ ws2 @ ''{'' @ body @ ''}'' @ post
            \<and> ws1 \<noteq> [] \<and> list_all is_space ws1 \<and> name d \<noteq> [] \<and> list_all is_word (name d)
            \<and> list_all is_space ws2 \<and> CHR ''}'' \<notin> set body"
    by blast
  from ok show "p' = p\<lparr>chips_cache := (chips_cache p)(name d \<mapsto> d)\<rparr>"
    by (auto simp: parse_hdl_def Let_def split: option.splits prod.splits)
qed

theorem parse_hdl_ignores_expected_name_witness:
  "parse_hdl init_parser and_hdl (Some ''Xor'') = parse_hdl init_parser and_hdl None
   \<and> parse_hdl init_parser and_hdl (Some ''Xor'') =
       (Inr and_chip, init_parser\<lparr>chips_cache := (chips_cache init_parser)(''And'' \<mapsto> and_chip)\<rparr>)
   \<and> name and_chip = ''And''
   \<and> chips_cache (snd (parse_hdl init_parser and_hdl (Some ''Xor''))) ''Xor'' = None"
proof -
  have ok: "parse_hdl init_parser and_hdl (Some ''Xor'') =
      (Inr and_chip, init_parser\<lparr>chips_cache := (chips_cache init_parser)(''And'' \<mapsto> and_chip)\<rparr>)"
    by (subst parse_hdl_frame) (simp add: parse_and_hdl and_chip_def)
  have "chips_cache (init_parser\<lparr>chips_cache := (chips_cache init_parser)(''And'' \<mapsto> and_chip)\<rparr>) ''Xor'' = None"
    by (simp add: init_parser_def built_in_chips_def)
  then show ?thesis
    using ok parse_hdl_ignores_expected_name [of init_parser and_hdl "Some ''Xor''" None and_chip
        "init_parser\<lparr>chips_cache := (chips_cache init_parser)(''And'' \<mapsto> and_chip)\<rparr>"]
    by (simp add: and_chip_def)
qed

section \<open>Internal signals\<close>

text \<open>
  The loop over the connections of a part adds to the set the sources that are neither
  inputs nor outputs, and the loop over the parts keeps the set equal to those sources
  of the parts built so far.
\<close>

lemma track_internal_pins_eq:
  "track_internal_pins ins outs conns pins =
     pins \<union> {s. \<exists>c \<in> set conns. source c = s \<and> s \<notin> set ins \<and> s \<notin> set outs}"
  by (induction conns arbitrary: pins) (auto simp: Let_def)

lemma parse_part_matches_pins:
  assumes "parse_part_matches ins outs ms (ps, pins) = (ps', pins')"
    and "pins = {s. \<exists>part \<in> set ps. \<exists>c \<in> set (connections part).
                  source c = s \<and> s \<notin> set ins \<and> s \<notin> set outs}"
  shows "pins' = {s. \<exists>part \<in> set ps'. \<exists>c \<in> set (connections part).
                  source c = s \<and> s \<notin> set ins \<and> s \<notin> set outs}"
  using assms
proof (induction ms arbitrary: ps pins)
  case Nil
  then show ?case by auto
next
  case (Cons m ms)
  obtain ctype connections_str where m: "m = (ctype, connections_str)"
    by (cases m)
  let ?inst = "\<lparr>chip_type = ctype, inst_name = ctype @ ''_'' @ str_of_nat (length ps),
                connections = parse_connections connections_str\<rparr>"
  have run: "parse_part_matches ins outs ms
          (ps @ [?inst], track_internal_pins ins outs (parse_connections connections_str) pins) =
        (ps', pins')"
    using Cons.prems(1) by (simp add: m Let_def)
  show ?case
  proof (rule Cons.IH [OF run])
    show "track_internal_pins ins outs (parse_connections connections_str) pins =
        {s. \<exists>part \<in> set (ps @ [?inst]). \<exists>c \<in> set (connections part).
              source c = s \<and> s \<notin> set ins \<and> s \<notin> set outs}"
      unfolding track_internal_pins_eq Cons.prems(2) by auto
  qed
qed

text \<open>
  C7. For a chip that parses, the internal signal names stored with the definition are
  exactly the names that are the source of a connection of a part and are neither a
  declared input nor a declared output; a destination is in the set only when it is such
  a source as well. The definition is stored in the registry under its name.
\<close>

theorem internal_pins_inferred:
  assumes "parse_hdl p content e = (Inr d, p')"
  shows "internal_pins d =
           {s. \<exists>part \<in> set (parts d). \<exists>c \<in> set (connections part).
                 source c = s \<and> s \<notin> set (inputs d) \<and> s \<notin> set (outputs d)}
         \<and> chips_cache p' (name d) = Some d"
proof -
  from assms obtain chip_name chip_body where
    m: "search_chip (remove_comments content) = Some (chip_name, chip_body)"
    by (auto simp: parse_hdl_def split: option.splits)
  let ?ins = "parse_io_section chip_body ''IN''"
  let ?outs = "parse_io_section chip_body ''OUT''"
  obtain ps pins where sec: "parse_parts_section chip_body ?ins ?outs = (ps, pins)"
    by (cases "parse_parts_section chip_body ?ins ?outs")
  have d: "d = \<lparr>name = chip_name, inputs = ?ins, outputs = ?outs, parts = ps,
                internal_pins = pins\<rparr>"
    and p': "p' = p\<lparr>chips_cache := (chips_cache p)(chip_name \<mapsto> d)\<rparr>"
    using assms m sec by (auto simp: parse_hdl_def Let_def)
  have "pins = {s. \<exists>part \<in> set ps. \<exists>c \<in> set (connections part).
                  source c = s \<and> s \<notin> set ?ins \<and> s \<notin> set ?outs}"
  proof (cases "search_parts chip_body")
    case None
    with sec show ?thesis by (simp add: parse_parts_section_def)
  next
    case (Some parts_content)
    with sec have "parse_part_matches ?ins ?outs (finditer_part parts_content) ([], {}) = (ps, pins)"
      by (simp add: parse_parts_section_def)
    then show ?thesis
      by (rule parse_part_matches_pins) simp
  qed
  then show ?thesis
    by (simp add: d p')
qed

theorem internal_pins_inferred_witness:
  "parse_hdl init_parser and_hdl None =
     (Inr and_chip, init_parser\<lparr>chips_cache := (chips_cache init_parser)(''And'' \<mapsto> and_chip)\<rparr>)
   \<and> internal_pins and_chip = {''nandOut''}
   \<and> {s. \<exists>part \<in> set (parts and_chip). \<exists>c \<in> set (connections part).
          source c = s \<and> s \<notin> set (inputs and_chip) \<and> s \<notin> set (outputs and_chip)} =
       {''nandOut''}"
proof -
  have ok: "parse_hdl init_parser and_hdl None =
      (Inr and_chip, init_parser\<lparr>chips_cache := (chips_cache init_parser)(''And'' \<mapsto> and_chip)\<rparr>)"
    by (subst parse_hdl_frame) (simp add: parse_and_hdl and_chip_def)
  have "internal_pins and_chip = {''nandOut''}"
    by (simp add: and_chip_def)
  then show ?thesis
    using ok internal_pins_inferred [OF ok] by simp
qed

section \<open>Resolution of a chip type\<close>

lemma parse_hdl_error:
  "fst (parse_hdl p content e) = Inl err \<Longrightarrow>
   err = ValueError ''Invalid HDL format - no CHIP definition found'' \<and> snd (parse_hdl p content e) = p"
  by (auto simp: parse_hdl_def Let_def split: option.splits prod.splits)

text \<open>
  C8, as the code has it. A registered name returns its entry. On a miss, a missing
  unit \<open>name.hdl\<close> gives not-found; a unit that parses is cached under the name its
  text declares and returned; a unit with no chip block raises the format error of the
  parser, which \<open>get_chip_definition\<close> does not catch.
\<close>

theorem resolve_cases:
  "(chips_cache p n = Some d \<longrightarrow> get_chip_definition fs p n = (Inr (Some d), p))
   \<and> (chips_cache p n = None \<and> fs (n @ ''.hdl'') = None \<longrightarrow>
        get_chip_definition fs p n = (Inr None, p))
   \<and> (chips_cache p n = None \<and> fs (n @ ''.hdl'') = Some content
        \<and> fst (parse_hdl p content e) = Inr d \<longrightarrow>
        get_chip_definition fs p n =
          (Inr (Some d), p\<lparr>chips_cache := (chips_cache p)(name d \<mapsto> d)\<rparr>))
   \<and> (chips_cache p n = None \<and> fs (n @ ''.hdl'') = Some content
        \<and> fst (parse_hdl p content e) = Inl err \<longrightarrow>
        err = ValueError ''Invalid HDL format - no CHIP definition found''
        \<and> get_chip_definition fs p n = (Inl err, p))"
proof (intro conjI impI)
  assume "chips_cache p n = Some d"
  then show "get_chip_definition fs p n = (Inr (Some d), p)"
    by (simp add: get_chip_definition_def)
next
  assume "chips_cache p n = None \<and> fs (n @ ''.hdl'') = None"
  then show "get_chip_definition fs p n = (Inr None, p)"
    by (simp add: get_chip_definition_def parse_file_def)
next
  assume a: "chips_cache p n = None \<and> fs (n @ ''.hdl'') = Some content
        \<and> fst (parse_hdl p content e) = Inr d"
  then have "parse_hdl p content (Some (path_stem (n @ ''.hdl''))) =
      (Inr d, p\<lparr>chips_cache := (chips_cache p)(name d \<mapsto> d)\<rparr>)"
    by (auto simp: parse_hdl_def Let_def split: option.splits prod.splits)
  with a show "get_chip_definition fs p n =
          (Inr (Some d), p\<lparr>chips_cache := (chips_cache p)(name d \<mapsto> d)\<rparr>)"
    by (simp add: get_chip_definition_def parse_file_def)
next
  assume a: "chips_cache p n = None \<and> fs (n @ ''.hdl'') = Some content
        \<and> fst (parse_hdl p content e) = Inl err"
  then show err: "err = ValueError ''Invalid HDL format - no CHIP definition found''"
    using parse_hdl_error by blast
  from a have "parse_hdl p content (Some (path_stem (n @ ''.hdl''))) = (Inl err, p)"
    by (auto simp: parse_hdl_def Let_def split: option.splits prod.splits)
  with a show "get_chip_definition fs p n = (Inl err, p)"
    by (simp add: get_chip_definition_def parse_file_def err)
qed

theorem resolve_cases_witness:
  "get_chip_definition Map.empty init_parser ''And'' =
     (Inr (Some (ChipDefinition ''And'' [''a'', ''b''] [''out''])), init_parser)
   \<and> get_chip_definition Map.empty init_parser ''Mystery'' = (Inr None, init_parser)
   \<and> get_chip_definition xor_files init_parser ''Xor'' =
       (Inr (Some xor_chip),
        init_parser\<lparr>chips_cache := (chips_cache init_parser)(''Xor'' \<mapsto> xor_chip)\<rparr>)
   \<and> get_chip_definition broken_files init_parser ''Broken'' =
       (Inl (ValueError ''Invalid HDL format - no CHIP definition found''), init_parser)"
proof -
  have 1: "chips_cache init_parser ''And'' = Some (ChipDefinition ''And'' [''a'', ''b''] [''out''])"
    by (simp add: init_parser_def built_in_chips_def)
  have 2: "chips_cache init_parser ''Mystery'' = None \<and> Map.empty (''Mystery'' @ ''.hdl'') = None"
    by (simp add: init_parser_def built_in_chips_def)
  have "chips_cache init_parser ''Xor'' = None \<and> xor_files (''Xor'' @ ''.hdl'') = Some xor_hdl"
    by (simp add: init_parser_def built_in_chips_def xor_files_def)
  then have 3: "chips_cache init_parser ''Xor'' = None \<and> xor_files (''Xor'' @ ''.hdl'') = Some xor_hdl
      \<and> fst (parse_hdl init_parser xor_hdl None) = Inr xor_chip"
    using parse_xor_hdl by simp
  have 4: "chips_cache init_parser ''Broken'' = None
      \<and> broken_files (''Broken'' @ ''.hdl'') = Some ''This is not valid HDL''
      \<and> fst (parse_hdl init_parser ''This is not valid HDL'' None) =
          Inl (ValueError ''Invalid HDL format - no CHIP definition found'')"
    by (simp add: init_parser_def built_in_chips_def broken_files_def parse_hdl_def
        remove_comments_def match_chip_def)
  show ?thesis
    using 1 2 3 4
      resolve_cases [of init_parser "''And''" "ChipDefinition ''And'' [''a'', ''b''] [''out'']" Map.empty]
      resolve_cases [of init_parser "''Mystery''" _ Map.empty]
      resolve_cases [of init_parser "''Xor''" xor_chip xor_files xor_hdl None]
      resolve_cases [of init_parser "''Broken''" _ broken_files "''This is not valid HDL''" None
        "ValueError ''Invalid HDL format - no CHIP definition found''"]
    by (simp add: xor_chip_def)
qed

text \<open>
  The claim as the specification states it, that a failed lazy load returns not-found
  instead of raising, fails on a unit that exists and does not parse.
\<close>

theorem resolve_raises_on_bad_unit:
  "chips_cache init_parser ''Broken'' = None
   \<and> fst (get_chip_definition broken_files init_parser ''Broken'') =
       Inl (ValueError ''Invalid HDL format - no CHIP definition found'')
   \<and> fst (get_chip_definition broken_files init_parser ''Broken'') \<noteq> Inr None"
  by (simp add: get_chip_definition_def parse_file_def init_parser_def built_in_chips_def
      broken_files_def parse_hdl_def remove_comments_def match_chip_def)

section \<open>Unknown chip types\<close>

lemma simulate_parts_append:
  "simulate_parts fs sim (ps @ qs) changed st =
     (case simulate_parts fs sim ps changed st of
        None \<Rightarrow> None
      | Some (Inl e, st') \<Rightarrow> Some (Inl e, st')
      | Some (Inr c, st') \<Rightarrow> simulate_parts fs sim qs c st')"
  by (induction ps arbitrary: changed st) (auto split: option.splits sum.splits prod.splits)

lemma simulate_part_unknown:
  assumes "chip_type part \<notin> dom built_in_chips"
    and "chips_cache (parser st) (chip_type part) = None"
    and "fs (chip_type part @ ''.hdl'') = None"
  shows "simulate_part fs sim part st =
           Some (Inl (ValueError (''Unknown chip type: '' @ chip_type part)), st)"
  using assms
  by (simp add: simulate_part_def simulate_custom_def get_chip_definition_def parse_file_def)

lemma simulate_part_bad_unit:
  assumes "chip_type part \<notin> dom built_in_chips"
    and "chips_cache (parser st) (chip_type part) = None"
    and "fs (chip_type part @ ''.hdl'') = Some content"
    and "search_chip (remove_comments content) = None"
  shows "simulate_part fs sim part st =
           Some (Inl (ValueError ''Invalid HDL format - no CHIP definition found''), st)"
  using assms
  by (simp add: simulate_part_def simulate_custom_def get_chip_definition_def parse_file_def
      parse_hdl_def)

text \<open>
  An exception raised by a part in the first pass, after the parts declared before it
  have run, is what the call raises.
\<close>

lemma simulate_raises_at_part:
  assumes "parts d = ps @ part # qs"
    and "simulate_parts fs sim ps False (st\<lparr>signal_values := init_signals d ins\<rparr>) =
           Some (Inr changed, st1)"
    and "simulate_part fs sim part st1 = Some (Inl e, st2)"
  shows "simulate_body fs sim st d ins = Some (Inl e, st2)"
proof -
  have "simulate_parts fs sim (parts d) False (st\<lparr>signal_values := init_signals d ins\<rparr>) =
      Some (Inl e, st2)"
    using assms(2,3) by (simp add: assms(1) simulate_parts_append)
  then have "iterate fs sim (parts d) max_iterations 0 (st\<lparr>signal_values := init_signals d ins\<rparr>) =
      Some (Inl e, st2)"
    by (simp add: max_iterations_def iterate_unfold [of 100])
  moreover have "parts d \<noteq> []"
    by (simp add: assms(1))
  ultimately show ?thesis
    by (simp add: simulate_body_def)
qed

text \<open>
  C5, as the code has it. A chip has a part whose type is not a primitive; the parts
  declared before it evaluate without an error, and then the type is not in the
  registry. If no unit \<open>type.hdl\<close> exists, loading the unit raises
  \<open>FileNotFoundError\<close>, the resolution returns not-found, and \<open>simulate\<close> raises the
  \<open>ValueError\<close> whose message is \<open>Unknown chip type:\<close> followed by the type. If the
  unit exists and its text has no chip block, the resolution raises the format error of
  the parser, and \<open>simulate\<close> raises that error, whose message does not name the type.
  The depth of the call plays no role.
\<close>

theorem unknown_chip_error:
  assumes "parts d = ps @ part # qs"
    and "chip_type part \<notin> dom built_in_chips"
    and "simulate_parts fs (simulate fs depth) ps False
           (st\<lparr>signal_values := init_signals d ins\<rparr>) = Some (Inr changed, st1)"
    and "chips_cache (parser st1) (chip_type part) = None"
  shows "(fs (chip_type part @ ''.hdl'') = None \<longrightarrow>
            fst (parse_file fs (parser st1) (chip_type part @ ''.hdl'')) =
              Inl (FileNotFoundError (''HDL file not found: '' @ chip_type part @ ''.hdl''))
          \<and> fst (get_chip_definition fs (parser st1) (chip_type part)) = Inr None
          \<and> result (simulate fs (Suc depth) st d ins) =
              Some (Inl (ValueError (''Unknown chip type: '' @ chip_type part))))
       \<and> (fs (chip_type part @ ''.hdl'') = Some content
            \<and> search_chip (remove_comments content) = None \<longrightarrow>
            fst (get_chip_definition fs (parser st1) (chip_type part)) =
              Inl (ValueError ''Invalid HDL format - no CHIP definition found'')
          \<and> result (simulate fs (Suc depth) st d ins) =
              Some (Inl (ValueError ''Invalid HDL format - no CHIP definition found'')))"
proof (intro conjI impI)
  assume none: "fs (chip_type part @ ''.hdl'') = None"
  show "fst (parse_file fs (parser st1) (chip_type part @ ''.hdl'')) =
      Inl (FileNotFoundError (''HDL file not found: '' @ chip_type part @ ''.hdl''))"
    using none by (simp add: parse_file_def)
  show "fst (get_chip_definition fs (parser st1) (chip_type part)) = Inr None"
    using none assms(4) by (simp add: get_chip_definition_def parse_file_def)
  have "simulate_body fs (simulate fs depth) st d ins =
      Some (Inl (ValueError (''Unknown chip type: '' @ chip_type part)), st1)"
    using assms(1,3) simulate_part_unknown [of part st1 fs "simulate fs depth", OF assms(2,4) none]
    by (rule simulate_raises_at_part)
  then show "result (simulate fs (Suc depth) st d ins) =
      Some (Inl (ValueError (''Unknown chip type: '' @ chip_type part)))"
    by (simp add: result_def)
next
  assume bad: "fs (chip_type part @ ''.hdl'') = Some content
      \<and> search_chip (remove_comments content) = None"
  show "fst (get_chip_definition fs (parser st1) (chip_type part)) =
      Inl (ValueError ''Invalid HDL format - no CHIP definition found'')"
    using bad assms(4) by (simp add: get_chip_definition_def parse_file_def parse_hdl_def)
  have "simulate_body fs (simulate fs depth) st d ins =
      Some (Inl (ValueError ''Invalid HDL format - no CHIP definition found''), st1)"
    using assms(1,3)
      simulate_part_bad_unit [OF assms(2,4), of fs content "simulate fs depth"] bad
    by (intro simulate_raises_at_part) simp_all
  then show "result (simulate fs (Suc depth) st d ins) =
      Some (Inl (ValueError ''Invalid HDL format - no CHIP definition found''))"
    by (simp add: result_def)
qed

text \<open>
  \<open>Wrapper\<close> with no units at all, and \<open>Holder\<close> with the unit \<open>Broken.hdl\<close> that
  has no chip block.
\<close>

theorem unknown_chip_error_witness:
  "parts wrapper_chip =
     [ChipInstance ''Not'' ''Not_0'' [Connection ''a'' ''in'', Connection ''w'' ''out'']]
     @ ChipInstance ''Mystery'' ''Mystery_1'' [Connection ''w'' ''in'', Connection ''out'' ''out'']
     # []
   \<and> ''Mystery'' \<notin> dom built_in_chips
   \<and> chips_cache init_parser ''Mystery'' = None
   \<and> result (simulate Map.empty (Suc 0) (ChipSimulator init_parser) wrapper_chip [''a'' \<mapsto> 1]) =
       Some (Inl (ValueError ''Unknown chip type: Mystery''))
   \<and> parts holder_chip =
       [] @ ChipInstance ''Broken'' ''Broken_0'' [Connection ''a'' ''in'', Connection ''out'' ''out'']
       # []
   \<and> ''Broken'' \<notin> dom built_in_chips
   \<and> chips_cache init_parser ''Broken'' = None
   \<and> broken_files ''Broken.hdl'' = Some ''This is not valid HDL''
   \<and> search_chip (remove_comments ''This is not valid HDL'') = None
   \<and> result (simulate broken_files (Suc 0) (ChipSimulator init_parser) holder_chip [''a'' \<mapsto> 1]) =
       Some (Inl (ValueError ''Invalid HDL format - no CHIP definition found''))"
proof -
  let ?p0 = "ChipInstance ''Not'' ''Not_0'' [Connection ''a'' ''in'', Connection ''w'' ''out'']"
  let ?p1 = "ChipInstance ''Mystery'' ''Mystery_1''
               [Connection ''w'' ''in'', Connection ''out'' ''out'']"
  let ?q = "ChipInstance ''Broken'' ''Broken_0''
               [Connection ''a'' ''in'', Connection ''out'' ''out'']"
  let ?st = "ChipSimulator init_parser"
  let ?st1 = "?st\<lparr>signal_values :=
                (override_on [''a'' \<mapsto> 1] (\<lambda>pin. Some 0) {''w''})(''out'' \<mapsto> 0)\<rparr>"
  let ?st2 = "?st\<lparr>signal_values := init_signals holder_chip [''a'' \<mapsto> 1]\<rparr>"
  have 1: "parts wrapper_chip = [?p0] @ ?p1 # []"
    by (simp add: wrapper_chip_def)
  have 2: "chip_type ?p1 \<notin> dom built_in_chips"
    by (simp add: ChipInstance_def built_in_chips_def)
  have 3: "simulate_parts Map.empty (simulate Map.empty 0) [?p0] False
             (?st\<lparr>signal_values := init_signals wrapper_chip [''a'' \<mapsto> 1]\<rparr>) =
           Some (Inr False, ?st1)"
    by (simp add: part_defs init_signals_def wrapper_chip_def)
  have 4: "chips_cache (parser ?st1) (chip_type ?p1) = None"
    by (simp add: ChipSimulator_def init_parser_def built_in_chips_def ChipInstance_def)
  have 5: "Map.empty (chip_type ?p1 @ ''.hdl'') = None"
    by simp
  have 6: "parts holder_chip = [] @ ?q # []"
    by (simp add: holder_chip_def)
  have 7: "chip_type ?q \<notin> dom built_in_chips"
    by (simp add: ChipInstance_def built_in_chips_def)
  have 8: "simulate_parts broken_files (simulate broken_files 0) [] False ?st2 =
           Some (Inr False, ?st2)"
    by simp
  have 9: "chips_cache (parser ?st2) (chip_type ?q) = None"
    by (simp add: ChipSimulator_def init_parser_def built_in_chips_def ChipInstance_def)
  have 10: "broken_files (chip_type ?q @ ''.hdl'') = Some ''This is not valid HDL''
      \<and> search_chip (remove_comments ''This is not valid HDL'') = None"
    by (simp add: ChipInstance_def broken_files_def remove_comments_def match_chip_def)
  show ?thesis
    using 1 2 4 5 6 7 9 10 unknown_chip_error [OF 1 2 3 4]
      unknown_chip_error [OF 6 7 8 9, of "''This is not valid HDL''"]
    by (simp add: ChipInstance_def ChipSimulator_def)
qed

text \<open>
  The claim as the specification states it, that a type which is no primitive, is not
  registered and has no unit that loads fails with the error that names the type, fails
  on \<open>Holder\<close>: the unit \<open>Broken.hdl\<close> exists and does not parse, and the call raises
  the format error of the parser instead.
\<close>

theorem unknown_chip_bad_unit:
  "''Broken'' \<notin> dom built_in_chips
   \<and> chips_cache init_parser ''Broken'' = None
   \<and> fst (parse_file broken_files init_parser ''Broken.hdl'') =
       Inl (ValueError ''Invalid HDL format - no CHIP definition found'')
   \<and> result (simulate broken_files (Suc 0) (ChipSimulator init_parser) holder_chip [''a'' \<mapsto> 1]) =
       Some (Inl (ValueError ''Invalid HDL format - no CHIP definition found''))
   \<and> result (simulate broken_files (Suc 0) (ChipSimulator init_parser) holder_chip [''a'' \<mapsto> 1]) \<noteq>
       Some (Inl (ValueError ''Unknown chip type: Broken''))"
  by (simp add: part_defs body_defs holder_chip_def max_iterations_def iterate_unfold [of 100]
      ChipSimulator_def init_parser_def parse_file_def broken_files_def parse_hdl_def
      remove_comments_def match_chip_def)

section \<open>The bound on the passes\<close>

text \<open>
  The loop of \<open>simulate\<close> against passes run unconditionally. If the loop ends normally
  after \<open>m - i\<close> passes, those passes in a row give the simulator it ends in, every pass
  but the last reports a change, and the last reports none unless the passes ran out.
  Conversely such a run of passes is what the loop does.
\<close>

lemma iterate_sound:
  "iterate fs sim ps k i st = Some (Inr m, st') \<Longrightarrow> 0 < k \<Longrightarrow>
   \<exists>n c. 1 \<le> n \<and> n \<le> k \<and> m = i + n
     \<and> run_passes fs sim ps n st = Some (Inr (replicate (n - 1) True @ [c]), st')
     \<and> (n < k \<longrightarrow> \<not> c)"
proof (induction k arbitrary: i st)
  case 0
  then show ?case by simp
next
  case (Suc k)
  from Suc.prems(1) obtain c0 st0 where
    pass: "simulate_parts fs sim ps False st = Some (Inr c0, st0)"
    by (auto split: option.splits sum.splits prod.splits)
  show ?case
  proof (cases c0)
    case False
    with Suc.prems(1) pass have "m = Suc i" "st' = st0"
      by auto
    with pass False have "1 \<le> (1::nat) \<and> 1 \<le> Suc k \<and> m = i + 1
        \<and> run_passes fs sim ps 1 st = Some (Inr (replicate (1 - 1) True @ [False]), st')
        \<and> (1 < Suc k \<longrightarrow> \<not> False)"
      by simp
    then show ?thesis by blast
  next
    case True
    with Suc.prems(1) pass have rest: "iterate fs sim ps k (Suc i) st0 = Some (Inr m, st')"
      by simp
    show ?thesis
    proof (cases k)
      case 0
      with rest have "m = Suc i" "st' = st0"
        by auto
      with pass True 0 have "1 \<le> (1::nat) \<and> 1 \<le> Suc k \<and> m = i + 1
          \<and> run_passes fs sim ps 1 st = Some (Inr (replicate (1 - 1) True @ [True]), st')
          \<and> (1 < Suc k \<longrightarrow> \<not> True)"
        by simp
      then show ?thesis by blast
    next
      case (Suc k')
      then have "0 < k" by simp
      from Suc.IH [OF rest this] obtain n c where n:
        "1 \<le> n" "n \<le> k" "m = Suc i + n"
        "run_passes fs sim ps n st0 = Some (Inr (replicate (n - 1) True @ [c]), st')"
        "n < k \<longrightarrow> \<not> c"
        by blast
      from \<open>1 \<le> n\<close> have "replicate (Suc n - 1) True = True # replicate (n - 1) True"
        by (cases n) simp_all
      with n pass True have "1 \<le> Suc n \<and> Suc n \<le> Suc k \<and> m = i + Suc n
          \<and> run_passes fs sim ps (Suc n) st = Some (Inr (replicate (Suc n - 1) True @ [c]), st')
          \<and> (Suc n < Suc k \<longrightarrow> \<not> c)"
        by simp
      then show ?thesis by blast
    qed
  qed
qed

lemma iterate_complete:
  "run_passes fs sim ps n st = Some (Inr (replicate (n - 1) True @ [c]), st') \<Longrightarrow>
   1 \<le> n \<Longrightarrow> n \<le> k \<Longrightarrow> (n < k \<longrightarrow> \<not> c) \<Longrightarrow>
   iterate fs sim ps k i st = Some (Inr (i + n), st')"
proof (induction n arbitrary: k i st)
  case 0
  then show ?case by simp
next
  case (Suc n)
  from Suc.prems(3) obtain k' where k: "k = Suc k'"
    by (cases k) simp_all
  from Suc.prems(1) obtain c0 st0 cs where
    pass: "simulate_parts fs sim ps False st = Some (Inr c0, st0)" and
    rest: "run_passes fs sim ps n st0 = Some (Inr cs, st')" and
    flags: "c0 # cs = replicate n True @ [c]"
    by (auto split: option.splits sum.splits prod.splits)
  show ?case
  proof (cases n)
    case 0
    with rest flags have "st' = st0" "c0 = c"
      by simp_all
    with pass Suc.prems(3,4) 0 k show ?thesis
      by (cases k') auto
  next
    case (Suc n')
    with flags have c0: "c0" and cs: "cs = replicate (n - 1) True @ [c]"
      by simp_all
    have r: "run_passes fs sim ps n st0 = Some (Inr (replicate (n - 1) True @ [c]), st')"
      unfolding cs [symmetric] by (rule rest)
    have "iterate fs sim ps k' (Suc i) st0 = Some (Inr (Suc i + n), st')"
      using Suc.prems(3,4) Suc k by (intro Suc.IH [OF r]) simp_all
    with pass c0 k show ?thesis
      by simp
  qed
qed

lemma extract_outputs_apply:
  "extract_outputs d sv pin =
     (if pin \<in> set (outputs d) then Some (dict_get sv pin 0) else None)"
proof -
  have "foldl (\<lambda>outs output_pin. outs(output_pin \<mapsto> dict_get sv output_pin 0)) acc pins pin =
      (if pin \<in> set pins then Some (dict_get sv pin 0) else acc pin)" for acc pins
    by (induction pins arbitrary: acc) auto
  then show ?thesis
    by (simp add: extract_outputs_def)
qed

text \<open>
  What the loop does for every composite chip, in terms of the flags that the passes
  report: \<open>simulate\<close> returns outputs exactly when some number \<open>n\<close> of passes between 1
  and 100, run in a row from the initial signals, end without an error such that every
  pass before the last reports a change and the last reports none or is the 100th. The
  outputs are then the values of the output pins in the signals the last pass leaves, 0
  for a pin that is not there. In particular 100 passes that all report a change end the
  call with these values and with no error.
\<close>

lemma simulate_passes:
  assumes "\<not> (name d \<in> dom built_in_chips \<and> parts d = [])"
  shows "(simulate fs (Suc depth) st d ins = Some (Inr outs, st') \<longleftrightarrow>
           (\<exists>n c. 1 \<le> n \<and> n \<le> 100
              \<and> run_passes fs (simulate fs depth) (parts d) n
                    (st\<lparr>signal_values := init_signals d ins\<rparr>) =
                  Some (Inr (replicate (n - 1) True @ [c]), st')
              \<and> (n < 100 \<longrightarrow> \<not> c)
              \<and> outs = extract_outputs d (signal_values st')))
       \<and> (run_passes fs (simulate fs depth) (parts d) 100
              (st\<lparr>signal_values := init_signals d ins\<rparr>) = Some (Inr (replicate 100 True), st') \<longrightarrow>
            simulate fs (Suc depth) st d ins =
              Some (Inr (extract_outputs d (signal_values st')), st'))
       \<and> extract_outputs d (signal_values st') pin =
           (if pin \<in> set (outputs d) then Some (dict_get (signal_values st') pin 0) else None)"
proof (intro conjI impI iffI)
  let ?sim = "simulate fs depth"
  let ?st0 = "st\<lparr>signal_values := init_signals d ins\<rparr>"
  have body: "simulate fs (Suc depth) st d ins =
      (case iterate fs ?sim (parts d) 100 0 ?st0 of
         None \<Rightarrow> None
       | Some (Inl e, s) \<Rightarrow> Some (Inl e, s)
       | Some (Inr n, s) \<Rightarrow> Some (Inr (extract_outputs d (signal_values s)), s))"
    using assms by (auto simp: simulate_body_def max_iterations_def)
  {
    assume "simulate fs (Suc depth) st d ins = Some (Inr outs, st')"
    then obtain m where it: "iterate fs ?sim (parts d) 100 0 ?st0 = Some (Inr m, st')"
      and outs: "outs = extract_outputs d (signal_values st')"
      unfolding body by (auto split: option.splits sum.splits prod.splits)
    from iterate_sound [OF it] outs
    show "\<exists>n c. 1 \<le> n \<and> n \<le> 100
              \<and> run_passes fs ?sim (parts d) n ?st0 =
                  Some (Inr (replicate (n - 1) True @ [c]), st')
              \<and> (n < 100 \<longrightarrow> \<not> c)
              \<and> outs = extract_outputs d (signal_values st')"
      by auto
  }
  {
    assume "\<exists>n c. 1 \<le> n \<and> n \<le> 100
              \<and> run_passes fs ?sim (parts d) n ?st0 =
                  Some (Inr (replicate (n - 1) True @ [c]), st')
              \<and> (n < 100 \<longrightarrow> \<not> c)
              \<and> outs = extract_outputs d (signal_values st')"
    then obtain n c where n: "1 \<le> n" "n \<le> 100"
      "run_passes fs ?sim (parts d) n ?st0 = Some (Inr (replicate (n - 1) True @ [c]), st')"
      "n < 100 \<longrightarrow> \<not> c" and outs: "outs = extract_outputs d (signal_values st')"
      by blast
    from iterate_complete [OF n(3,1,2,4), of 0]
    show "simulate fs (Suc depth) st d ins = Some (Inr outs, st')"
      unfolding body by (simp add: outs)
  }
  {
    assume "run_passes fs ?sim (parts d) 100 ?st0 = Some (Inr (replicate 100 True), st')"
    moreover have "replicate (Suc 99) True = replicate 99 True @ [True]"
      by (simp only: replicate_Suc replicate_append_same)
    then have "replicate 100 True = replicate (100 - 1) True @ [True]"
      by simp
    ultimately have "run_passes fs ?sim (parts d) 100 ?st0 =
        Some (Inr (replicate (100 - 1) True @ [True]), st')"
      by simp
    from iterate_complete [OF this, of 100 0]
    show "simulate fs (Suc depth) st d ins =
        Some (Inr (extract_outputs d (signal_values st')), st')"
      unfolding body by simp
  }
  show "extract_outputs d (signal_values st') pin =
      (if pin \<in> set (outputs d) then Some (dict_get (signal_values st') pin 0) else None)"
    by (rule extract_outputs_apply)
qed

text \<open>
  The chip \<open>Osc\<close> inverts its own output in every pass: two passes bring the signals
  back, 100 passes all report a change, and the call returns \<open>out = 0\<close>.
\<close>

lemma run_passes_period2:
  assumes "simulate_parts fs sim ps False a = Some (Inr True, b)"
    and "simulate_parts fs sim ps False b = Some (Inr True, a)"
  shows "run_passes fs sim ps (2 * k) a = Some (Inr (replicate (2 * k) True), a)"
  by (induction k) (simp_all add: assms)

lemma osc_hundred_passes:
  "\<not> (name osc_chip \<in> dom built_in_chips \<and> parts osc_chip = [])
   \<and> run_passes Map.empty (simulate Map.empty 0) (parts osc_chip) 100
        ((ChipSimulator init_parser)\<lparr>signal_values := init_signals osc_chip [''a'' \<mapsto> 1]\<rparr>) =
      Some (Inr (replicate 100 True),
            (ChipSimulator init_parser)\<lparr>signal_values := [''a'' \<mapsto> 1, ''out'' \<mapsto> 0]\<rparr>)
   \<and> simulate Map.empty (Suc 0) (ChipSimulator init_parser) osc_chip [''a'' \<mapsto> 1] =
      Some (Inr [''out'' \<mapsto> 0],
            (ChipSimulator init_parser)\<lparr>signal_values := [''a'' \<mapsto> 1, ''out'' \<mapsto> 0]\<rparr>)"
proof -
  let ?st = "ChipSimulator init_parser"
  let ?a = "?st\<lparr>signal_values := [''a'' \<mapsto> 1, ''out'' \<mapsto> 0]\<rparr>"
  let ?b = "?st\<lparr>signal_values := [''a'' \<mapsto> 1, ''out'' \<mapsto> 1]\<rparr>"
  let ?sim = "simulate Map.empty 0"
  have comp: "\<not> (name osc_chip \<in> dom built_in_chips \<and> parts osc_chip = [])"
    by (simp add: osc_chip_def)
  have init: "init_signals osc_chip [''a'' \<mapsto> 1] = [''a'' \<mapsto> 1, ''out'' \<mapsto> 0]"
    by (simp add: init_signals_def osc_chip_def)
  have ab: "simulate_parts Map.empty ?sim (parts osc_chip) False ?a = Some (Inr True, ?b)"
    by (simp add: part_defs osc_chip_def)
  have ba: "simulate_parts Map.empty ?sim (parts osc_chip) False ?b = Some (Inr True, ?a)"
    by (simp add: part_defs osc_chip_def)
  have run: "run_passes Map.empty ?sim (parts osc_chip) 100
               (?st\<lparr>signal_values := init_signals osc_chip [''a'' \<mapsto> 1]\<rparr>) =
             Some (Inr (replicate 100 True), ?a)"
    using run_passes_period2 [OF ab ba, of 50] by (simp add: init)
  have outs: "extract_outputs osc_chip (signal_values ?a) = [''out'' \<mapsto> 0]"
    by (simp add: extract_outputs_def osc_chip_def dict_get_def)
  show ?thesis
    using comp run outs simulate_passes [OF comp, of Map.empty 0 ?st "[''a'' \<mapsto> 1]" _ ?a]
    by simp
qed

text \<open>
  The flag of a primitive gate is exact: the gate reports a change exactly when it
  leaves signal values other than the ones it found. A pass over primitive gates alone
  that reports no change leaves the simulator as it found it.
\<close>

lemma simulate_builtin_part_changed:
  "fst (simulate_builtin_part part st) \<longleftrightarrow>
     signal_values (snd (simulate_builtin_part part st)) \<noteq> signal_values st"
  by (auto simp: simulate_builtin_part_def dict_get_def Let_def fun_eq_iff
      split: prod.splits option.splits)

lemma simulate_builtin_part_quiet:
  "\<not> fst (simulate_builtin_part part st) \<Longrightarrow> snd (simulate_builtin_part part st) = st"
  by (auto simp: simulate_builtin_part_def Let_def split: prod.splits option.splits)

lemma simulate_parts_flag:
  "simulate_parts fs sim ps changed st = Some (Inr c, st') \<Longrightarrow> changed \<Longrightarrow> c"
  by (induction ps arbitrary: changed st) (auto split: option.splits sum.splits prod.splits)

lemma primitive_pass_quiet:
  assumes "\<forall>part \<in> set ps. chip_type part \<in> dom built_in_chips"
    and "simulate_parts fs sim ps False st = Some (Inr False, st')"
  shows "st' = st"
  using assms
proof (induction ps arbitrary: st)
  case Nil
  then show ?case by simp
next
  case (Cons part ps)
  obtain c st1 where b: "simulate_builtin_part part st = (c, st1)"
    by (cases "simulate_builtin_part part st")
  with Cons.prems have rest: "simulate_parts fs sim ps c st1 = Some (Inr False, st')"
    by (simp add: simulate_part_def)
  then have "\<not> c"
    using simulate_parts_flag by blast
  with b have "st1 = st"
    using simulate_builtin_part_quiet [of part st] by simp
  with rest \<open>\<not> c\<close> Cons.prems(1) show ?case
    by (simp add: Cons.IH)
qed

text \<open>
  The flag of a sub-chip part is not. \<open>_simulate_custom\<close> compares the new value of
  each output with \<open>self.signal_values\<close> as the recursive call left it, which is the
  dictionary of the sub-chip. The passes of \<open>HalfAdder\<close> on (0,1) and on (0,0), with
  \<open>Xor\<close> registered: \<open>st0\<close> is the simulator before the first pass and \<open>st1\<close> the one
  the first pass leaves.
\<close>

lemma half_adder_01_passes:
  assumes c: "chips_cache (parser st) ''Xor'' = Some xor_chip"
  shows "let sim = simulate fs (Suc depth);
             st0 = st\<lparr>signal_values := init_signals half_adder [''a'' \<mapsto> 0, ''b'' \<mapsto> 1]\<rparr>;
             st1 = state_after (simulate_parts fs sim (parts half_adder) False st0) st0
         in simulate_parts fs sim (parts half_adder) False st0 = Some (Inr True, st1)
          \<and> simulate_parts fs sim (parts half_adder) False st1 = Some (Inr True, st1)
          \<and> iterate fs sim (parts half_adder) max_iterations 0 st0 = Some (Inr 100, st1)
          \<and> map (signal_values st1) [''a'', ''b'', ''sum'', ''carry''] =
              [Some 0, Some 1, Some 1, None]"
proof -
  define sim where "sim = simulate fs (Suc depth)"
  define st0 where "st0 = st\<lparr>signal_values := init_signals half_adder [''a'' \<mapsto> 0, ''b'' \<mapsto> 1]\<rparr>"
  define st1 where "st1 = state_after (simulate_parts fs sim (parts half_adder) False st0) st0"
  have p1: "simulate_parts fs sim (parts half_adder) False st0 = Some (Inr True, st1)"
    unfolding st1_def st0_def sim_def using c by (simp add: half_adder_defs state_after_def)
  have p2: "simulate_parts fs sim (parts half_adder) False st1 = Some (Inr True, st1)"
    unfolding st1_def st0_def sim_def using c by (simp add: half_adder_defs state_after_def)
  have p3: "iterate fs sim (parts half_adder) max_iterations 0 st0 = Some (Inr 100, st1)"
    using p1 iterate_fixed_point [OF p2, of 99 1]
    by (simp add: max_iterations_def iterate_unfold [of 100])
  have p4: "map (signal_values st1) [''a'', ''b'', ''sum'', ''carry''] =
              [Some 0, Some 1, Some 1, None]"
    unfolding st1_def st0_def sim_def using c by (simp add: half_adder_defs state_after_def)
  from p1 p2 p3 p4 show ?thesis
    unfolding Let_def sim_def [symmetric] st0_def [symmetric] st1_def [symmetric] by simp
qed

lemma half_adder_00_passes:
  assumes c: "chips_cache (parser st) ''Xor'' = Some xor_chip"
  shows "let sim = simulate fs (Suc depth);
             st0 = st\<lparr>signal_values := init_signals half_adder [''a'' \<mapsto> 0, ''b'' \<mapsto> 0]\<rparr>;
             st1 = state_after (simulate_parts fs sim (parts half_adder) False st0) st0
         in simulate_parts fs sim (parts half_adder) False st0 = Some (Inr False, st1)
          \<and> iterate fs sim (parts half_adder) max_iterations 0 st0 = Some (Inr 1, st1)
          \<and> map (signal_values st0) [''a'', ''b'', ''sum'', ''carry'', ''nota'', ''notb''] =
              [Some 0, Some 0, Some 0, Some 0, None, None]
          \<and> map (signal_values st1) [''a'', ''b'', ''sum'', ''carry'', ''nota'', ''notb''] =
              [Some 0, Some 0, None, None, Some 1, Some 1]"
proof -
  define sim where "sim = simulate fs (Suc depth)"
  define st0 where "st0 = st\<lparr>signal_values := init_signals half_adder [''a'' \<mapsto> 0, ''b'' \<mapsto> 0]\<rparr>"
  define st1 where "st1 = state_after (simulate_parts fs sim (parts half_adder) False st0) st0"
  have p1: "simulate_parts fs sim (parts half_adder) False st0 = Some (Inr False, st1)"
    unfolding st1_def st0_def sim_def using c by (simp add: half_adder_defs state_after_def)
  have p3: "iterate fs sim (parts half_adder) max_iterations 0 st0 = Some (Inr 1, st1)"
    using p1 by (simp add: max_iterations_def iterate_unfold [of 100])
  have p4: "map (signal_values st0) [''a'', ''b'', ''sum'', ''carry'', ''nota'', ''notb''] =
              [Some 0, Some 0, Some 0, Some 0, None, None]"
    unfolding st0_def by (simp add: half_adder_defs)
  have p5: "map (signal_values st1) [''a'', ''b'', ''sum'', ''carry'', ''nota'', ''notb''] =
              [Some 0, Some 0, None, None, Some 1, Some 1]"
    unfolding st1_def st0_def sim_def using c by (simp add: half_adder_defs state_after_def)
  from p1 p3 p4 p5 show ?thesis
    unfolding Let_def sim_def [symmetric] st0_def [symmetric] st1_def [symmetric] by simp
qed

text \<open>
  C6. The loop does not stop at the first pass that changes no signal value. On
  \<open>HalfAdder\<close> with \<open>a = 0, b = 1\<close> and \<open>Xor\<close> registered, the first pass reports a
  change and leaves the simulator \<open>st1\<close>; the second pass run on \<open>st1\<close> leaves \<open>st1\<close>
  again, so that no signal has another value after it than before it, and still reports
  a change; the loop performs all 100 passes. In \<open>st1\<close> the output \<open>carry\<close> of the
  chip is not even present. On \<open>a = 0, b = 0\<close> the first pass reports no change and the
  loop stops after it, although the pass has removed \<open>sum\<close> and \<open>carry\<close> from the
  signals and brought in \<open>nota\<close> and \<open>notb\<close> with the value 1.
\<close>

theorem stable_pass_not_detected:
  "(let sim = simulate fs (Suc depth);
        st0 = xor_simulator\<lparr>signal_values := init_signals half_adder [''a'' \<mapsto> 0, ''b'' \<mapsto> 1]\<rparr>;
        st1 = state_after (simulate_parts fs sim (parts half_adder) False st0) st0
    in simulate_parts fs sim (parts half_adder) False st0 = Some (Inr True, st1)
     \<and> simulate_parts fs sim (parts half_adder) False st1 = Some (Inr True, st1)
     \<and> iterate fs sim (parts half_adder) max_iterations 0 st0 = Some (Inr 100, st1)
     \<and> map (signal_values st1) [''a'', ''b'', ''sum'', ''carry''] =
         [Some 0, Some 1, Some 1, None])
   \<and> (let sim = simulate fs (Suc depth);
          st0 = xor_simulator\<lparr>signal_values := init_signals half_adder [''a'' \<mapsto> 0, ''b'' \<mapsto> 0]\<rparr>;
          st1 = state_after (simulate_parts fs sim (parts half_adder) False st0) st0
      in simulate_parts fs sim (parts half_adder) False st0 = Some (Inr False, st1)
       \<and> iterate fs sim (parts half_adder) max_iterations 0 st0 = Some (Inr 1, st1)
       \<and> map (signal_values st0) [''a'', ''b'', ''sum'', ''carry'', ''nota'', ''notb''] =
           [Some 0, Some 0, Some 0, Some 0, None, None]
       \<and> map (signal_values st1) [''a'', ''b'', ''sum'', ''carry'', ''nota'', ''notb''] =
           [Some 0, Some 0, None, None, Some 1, Some 1])"
proof -
  have c: "chips_cache (parser xor_simulator) ''Xor'' = Some xor_chip"
    by (simp add: xor_simulator_def ChipSimulator_def)
  show ?thesis
    using half_adder_01_passes [OF c, of fs depth] half_adder_00_passes [OF c, of fs depth]
    by (rule conjI)
qed

section \<open>Determinism and the registry\<close>

text \<open>
  What the resolution of a name returns, in terms of the cache and the units alone.
\<close>

lemma get_chip_definition_value:
  "fst (get_chip_definition fs p n) =
     (case chips_cache p n of
        Some d \<Rightarrow> Inr (Some d)
      | None \<Rightarrow>
          (case fs (n @ ''.hdl'') of
             None \<Rightarrow> Inr None
           | Some content \<Rightarrow>
               (case fst (parse_hdl init_parser content None) of
                  Inl e \<Rightarrow> Inl e
                | Inr d \<Rightarrow> Inr (Some d))))"
proof (cases "chips_cache p n")
  case (Some d)
  then show ?thesis by (simp add: get_chip_definition_def)
next
  case None
  show ?thesis
  proof (cases "fs (n @ ''.hdl'')")
    case None
    with \<open>chips_cache p n = None\<close> show ?thesis
      by (simp add: get_chip_definition_def parse_file_def)
  next
    case (Some content)
    show ?thesis
    proof (cases "fst (parse_hdl init_parser content None)")
      case (Inl e)
      then have "e = ValueError ''Invalid HDL format - no CHIP definition found''"
        using parse_hdl_error by blast
      with Inl Some \<open>chips_cache p n = None\<close> show ?thesis
        by (simp add: get_chip_definition_def parse_file_def parse_hdl_frame [of p])
    next
      case (Inr d)
      with Some \<open>chips_cache p n = None\<close> show ?thesis
        by (simp add: get_chip_definition_def parse_file_def parse_hdl_frame [of p])
    qed
  qed
qed

text \<open>
  With well-named units a resolution leaves a parser that resolves every name as before,
  and whose cache extends the old one.
\<close>

lemma grows_refl: "grows fs p p"
  by (simp add: grows_def same_resolution_def)

lemma grows_trans: "grows fs p q \<Longrightarrow> grows fs q r \<Longrightarrow> grows fs p r"
  by (auto simp: grows_def same_resolution_def intro: map_le_trans)

lemma get_chip_definition_grows:
  assumes wn: "well_named fs" and g: "get_chip_definition fs p n = (r, p')"
  shows "grows fs p p'"
proof (cases "chips_cache p n")
  case (Some d)
  with g have "p' = p" by (simp add: get_chip_definition_def)
  then show ?thesis by (simp add: grows_refl)
next
  case None
  show ?thesis
  proof (cases "fs (n @ ''.hdl'')")
    case None
    with \<open>chips_cache p n = None\<close> g have "p' = p"
      by (simp add: get_chip_definition_def parse_file_def)
    then show ?thesis by (simp add: grows_refl)
  next
    case (Some content)
    show ?thesis
    proof (cases "fst (parse_hdl init_parser content None)")
      case (Inl e)
      then have "e = ValueError ''Invalid HDL format - no CHIP definition found''"
        using parse_hdl_error by blast
      with Inl Some \<open>chips_cache p n = None\<close> g have "p' = p"
        by (simp add: get_chip_definition_def parse_file_def parse_hdl_frame [of p])
      then show ?thesis by (simp add: grows_refl)
    next
      case (Inr d)
      with wn Some have nm: "name d = n"
        by (auto simp: well_named_def)
      from Inr Some \<open>chips_cache p n = None\<close> g nm
      have p': "p' = p\<lparr>chips_cache := (chips_cache p)(n \<mapsto> d)\<rparr>"
        by (simp add: get_chip_definition_def parse_file_def parse_hdl_frame [of p])
      have "fst (get_chip_definition fs p' m) = fst (get_chip_definition fs p m)" for m
        unfolding get_chip_definition_value p'
        using Inr Some \<open>chips_cache p n = None\<close> by simp
      moreover have "chips_cache p \<subseteq>\<^sub>m chips_cache p'"
        using \<open>chips_cache p n = None\<close> by (auto simp: p' map_le_def)
      ultimately show ?thesis
        by (simp add: grows_def same_resolution_def)
    qed
  qed
qed

text \<open>Every function of the simulator keeps the registry, if the recursive call does.\<close>

lemma keeps_bind:
  assumes "keeps fs st r"
    and "\<And>v s. r = Some (Inr v, s) \<Longrightarrow> keeps fs s (k v s)"
  shows "keeps fs st
           (case r of None \<Rightarrow> None | Some (Inl e, s) \<Rightarrow> Some (Inl e, s) | Some (Inr v, s) \<Rightarrow> k v s)"
  using assms
  by (auto simp: keeps_def split: option.splits sum.splits prod.splits intro: grows_trans)

lemma simulate_builtin_part_parser:
  "parser (snd (simulate_builtin_part part st)) = parser st"
  by (simp add: simulate_builtin_part_def Let_def split: prod.splits option.splits)

lemma simulate_custom_keeps:
  assumes wn: "well_named fs" and sim: "\<And>s d ins. keeps fs s (sim s d ins)"
  shows "keeps fs st (simulate_custom fs sim part st)"
proof -
  obtain r p' where g: "get_chip_definition fs (parser st) (chip_type part) = (r, p')"
    by (cases "get_chip_definition fs (parser st) (chip_type part)")
  have gr: "grows fs (parser st) p'"
    using wn g by (rule get_chip_definition_grows)
  show ?thesis
  proof (cases r)
    case (Inl e)
    with g gr show ?thesis
      by (simp add: simulate_custom_def keeps_def)
  next
    case (Inr od)
    show ?thesis
    proof (cases od)
      case None
      with Inr g gr show ?thesis
        by (simp add: simulate_custom_def keeps_def)
    next
      case (Some chip_def)
      let ?st1 = "st\<lparr>parser := p'\<rparr>"
      obtain sub_inputs output_mappings where
        gc: "gather_custom (signal_values ?st1) chip_def (connections part) (Map.empty, []) =
               (sub_inputs, output_mappings)"
        by (cases "gather_custom (signal_values ?st1) chip_def (connections part) (Map.empty, [])")
      have "keeps fs ?st1 (sim ?st1 chip_def sub_inputs)"
        by (rule sim)
      with gr have "keeps fs st (sim ?st1 chip_def sub_inputs)"
        by (auto simp: keeps_def split: option.splits intro: grows_trans)
      then show ?thesis
        using Inr Some g gc
        by (auto simp: simulate_custom_def keeps_def Let_def
            split: option.splits sum.splits prod.splits)
    qed
  qed
qed

lemma simulate_part_keeps:
  assumes "well_named fs" and "\<And>s d ins. keeps fs s (sim s d ins)"
  shows "keeps fs st (simulate_part fs sim part st)"
proof (cases "chip_type part \<in> dom built_in_chips")
  case True
  then have "simulate_part fs sim part st = Some (apfst Inr (simulate_builtin_part part st))"
    by (simp add: simulate_part_def)
  then show ?thesis
    using simulate_builtin_part_parser [of part st]
    by (cases "simulate_builtin_part part st") (simp add: keeps_def grows_refl)
next
  case False
  then show ?thesis
    using simulate_custom_keeps [OF assms] by (simp add: simulate_part_def)
qed

lemma simulate_parts_keeps:
  assumes "well_named fs" and "\<And>s d ins. keeps fs s (sim s d ins)"
  shows "keeps fs st (simulate_parts fs sim ps changed st)"
proof (induction ps arbitrary: changed st)
  case Nil
  show ?case by (simp add: keeps_def grows_refl)
next
  case (Cons part ps)
  show ?case
    unfolding simulate_parts.simps
    by (rule keeps_bind) (rule simulate_part_keeps [OF assms], rule Cons.IH)
qed

lemma iterate_keeps:
  assumes "well_named fs" and "\<And>s d ins. keeps fs s (sim s d ins)"
  shows "keeps fs st (iterate fs sim ps k i st)"
proof (induction k arbitrary: i st)
  case 0
  show ?case by (simp add: keeps_def grows_refl)
next
  case (Suc k)
  show ?case
    unfolding iterate.simps
  proof (rule keeps_bind)
    show "keeps fs st (simulate_parts fs sim ps False st)"
      by (rule simulate_parts_keeps [OF assms])
    show "keeps fs s (if \<not> changed then Some (Inr (Suc i), s) else iterate fs sim ps k (Suc i) s)"
      for changed s
      using Suc.IH [of s "Suc i"] by (simp add: keeps_def grows_refl)
  qed
qed

lemma simulate_keeps:
  assumes "well_named fs"
  shows "keeps fs st (simulate fs depth st d ins)"
proof (induction depth arbitrary: st d ins)
  case 0
  show ?case by (simp add: keeps_def)
next
  case (Suc depth)
  let ?st0 = "st\<lparr>signal_values := init_signals d ins\<rparr>"
  have "keeps fs ?st0 (iterate fs (simulate fs depth) (parts d) max_iterations 0 ?st0)"
    using assms Suc.IH by (rule iterate_keeps)
  then show ?case
    by (auto simp: simulate_body_def keeps_def grows_refl
        split: option.splits sum.splits prod.splits)
qed

text \<open>
  On simulators that are alike every function of the simulator has outcomes that are
  alike, if the recursive call does.
\<close>

lemma same_resolution_trans:
  "same_resolution fs p q \<Longrightarrow> same_resolution fs q r \<Longrightarrow> same_resolution fs p r"
  by (simp add: same_resolution_def)

lemma same_resolution_sym: "same_resolution fs p q \<Longrightarrow> same_resolution fs q p"
  by (simp add: same_resolution_def)

lemma out_eq_bind:
  assumes "out_eq fs r1 r2"
    and "\<And>v s1 s2. sim_eq fs s1 s2 \<Longrightarrow> out_eq fs (k v s1) (k v s2)"
  shows "out_eq fs
           (case r1 of None \<Rightarrow> None | Some (Inl e, s) \<Rightarrow> Some (Inl e, s)
            | Some (Inr v, s) \<Rightarrow> k v s)
           (case r2 of None \<Rightarrow> None | Some (Inl e, s) \<Rightarrow> Some (Inl e, s)
            | Some (Inr v, s) \<Rightarrow> k v s)"
proof (cases r1)
  case None
  with assms(1) show ?thesis by (simp add: out_eq_def)
next
  case (Some a)
  obtain v1 s1 where a: "a = (v1, s1)" by (cases a)
  from assms(1) Some a obtain s2 where r2: "r2 = Some (v1, s2)" and eq: "sim_eq fs s1 s2"
    by (auto simp: out_eq_def split: option.splits)
  show ?thesis
  proof (cases v1)
    case (Inl e)
    with Some a r2 eq show ?thesis by (simp add: out_eq_def)
  next
    case (Inr v)
    with Some a r2 assms(2) [OF eq, of v] show ?thesis by simp
  qed
qed

lemma get_chip_definition_alike:
  assumes wn: "well_named fs" and pq: "same_resolution fs p q"
    and gp: "get_chip_definition fs p n = (r, p')"
    and gq: "get_chip_definition fs q n = (r', q')"
  shows "r = r' \<and> same_resolution fs p' q'"
proof -
  have "r = r'"
    using pq gp gq by (auto simp: same_resolution_def dest: spec [of _ n])
  moreover have "same_resolution fs p p'" "same_resolution fs q q'"
    using get_chip_definition_grows [OF wn gp] get_chip_definition_grows [OF wn gq]
    by (simp_all add: grows_def)
  with pq have "same_resolution fs p' q'"
    by (blast intro: same_resolution_trans same_resolution_sym)
  ultimately show ?thesis by simp
qed

lemma simulate_builtin_part_alike:
  assumes "sim_eq fs st t"
  shows "fst (simulate_builtin_part part st) = fst (simulate_builtin_part part t)
       \<and> sim_eq fs (snd (simulate_builtin_part part st)) (snd (simulate_builtin_part part t))"
  using assms
  by (auto simp: simulate_builtin_part_def sim_eq_def Let_def split: prod.splits option.splits)

lemma simulate_custom_alike:
  assumes wn: "well_named fs"
    and sim: "\<And>s1 s2 d ins. sim_eq fs s1 s2 \<Longrightarrow> out_eq fs (sim s1 d ins) (sim s2 d ins)"
    and eq: "sim_eq fs st t"
  shows "out_eq fs (simulate_custom fs sim part st) (simulate_custom fs sim part t)"
proof -
  obtain r p' where gp: "get_chip_definition fs (parser st) (chip_type part) = (r, p')"
    by (cases "get_chip_definition fs (parser st) (chip_type part)")
  obtain r' q' where gq: "get_chip_definition fs (parser t) (chip_type part) = (r', q')"
    by (cases "get_chip_definition fs (parser t) (chip_type part)")
  from eq have sv: "signal_values st = signal_values t"
    and pq: "same_resolution fs (parser st) (parser t)"
    by (simp_all add: sim_eq_def)
  from get_chip_definition_alike [OF wn pq gp gq]
  have r: "r' = r" and pq': "same_resolution fs p' q'"
    by simp_all
  let ?st1 = "st\<lparr>parser := p'\<rparr>"
  let ?t1 = "t\<lparr>parser := q'\<rparr>"
  have eq1: "sim_eq fs ?st1 ?t1"
    using sv pq' by (simp add: sim_eq_def)
  show ?thesis
  proof (cases r)
    case (Inl e)
    with gp gq r eq1 show ?thesis
      by (simp add: simulate_custom_def out_eq_def)
  next
    case (Inr od)
    show ?thesis
    proof (cases od)
      case None
      with Inr gp gq r eq1 show ?thesis
        by (simp add: simulate_custom_def out_eq_def)
    next
      case (Some chip_def)
      obtain sub_inputs output_mappings where
        gc: "gather_custom (signal_values st) chip_def (connections part) (Map.empty, []) =
               (sub_inputs, output_mappings)"
        by (cases "gather_custom (signal_values st) chip_def (connections part) (Map.empty, [])")
      let ?k = "\<lambda>sub_outputs s.
          (let (changed, sv) = map_outputs sub_outputs output_mappings (False, signal_values s)
           in Some (Inr changed, s\<lparr>signal_values := sv\<rparr>))"
      have k: "out_eq fs (?k v s1) (?k v s2)" if "sim_eq fs s1 s2" for v s1 s2
        using that by (auto simp: out_eq_def sim_eq_def split: prod.splits)
      have "out_eq fs (sim ?st1 chip_def sub_inputs) (sim ?t1 chip_def sub_inputs)"
        using eq1 by (rule sim)
      from out_eq_bind [where k = ?k, OF this k]
      show ?thesis
        using Inr Some gp gq r gc sv
        by (simp add: simulate_custom_def)
    qed
  qed
qed

lemma simulate_part_alike:
  assumes "well_named fs"
    and "\<And>s1 s2 d ins. sim_eq fs s1 s2 \<Longrightarrow> out_eq fs (sim s1 d ins) (sim s2 d ins)"
    and "sim_eq fs st t"
  shows "out_eq fs (simulate_part fs sim part st) (simulate_part fs sim part t)"
proof (cases "chip_type part \<in> dom built_in_chips")
  case True
  then show ?thesis
    using simulate_builtin_part_alike [OF assms(3), of part]
    by (cases "simulate_builtin_part part st"; cases "simulate_builtin_part part t")
      (simp add: simulate_part_def out_eq_def)
next
  case False
  then show ?thesis
    using simulate_custom_alike [OF assms] by (simp add: simulate_part_def)
qed

lemma simulate_parts_alike:
  assumes "well_named fs"
    and "\<And>s1 s2 d ins. sim_eq fs s1 s2 \<Longrightarrow> out_eq fs (sim s1 d ins) (sim s2 d ins)"
    and "sim_eq fs st t"
  shows "out_eq fs (simulate_parts fs sim ps changed st) (simulate_parts fs sim ps changed t)"
  using assms(3)
proof (induction ps arbitrary: changed st t)
  case Nil
  then show ?case by (simp add: out_eq_def)
next
  case (Cons part ps)
  show ?case
    unfolding simulate_parts.simps
  proof (rule out_eq_bind)
    show "out_eq fs (simulate_part fs sim part st) (simulate_part fs sim part t)"
      using assms(1,2) Cons.prems by (rule simulate_part_alike)
    show "out_eq fs (simulate_parts fs sim ps (changed \<or> v) s1)
        (simulate_parts fs sim ps (changed \<or> v) s2)"
      if "sim_eq fs s1 s2" for v s1 s2
      using that by (rule Cons.IH)
  qed
qed

lemma iterate_alike:
  assumes "well_named fs"
    and "\<And>s1 s2 d ins. sim_eq fs s1 s2 \<Longrightarrow> out_eq fs (sim s1 d ins) (sim s2 d ins)"
    and "sim_eq fs st t"
  shows "out_eq fs (iterate fs sim ps k i st) (iterate fs sim ps k i t)"
  using assms(3)
proof (induction k arbitrary: i st t)
  case 0
  then show ?case by (simp add: out_eq_def)
next
  case (Suc k)
  show ?case
    unfolding iterate.simps
  proof (rule out_eq_bind)
    show "out_eq fs (simulate_parts fs sim ps False st) (simulate_parts fs sim ps False t)"
      using assms(1,2) Suc.prems by (rule simulate_parts_alike)
    show "out_eq fs
        (if \<not> changed then Some (Inr (Suc i), s1) else iterate fs sim ps k (Suc i) s1)
        (if \<not> changed then Some (Inr (Suc i), s2) else iterate fs sim ps k (Suc i) s2)"
      if "sim_eq fs s1 s2" for changed s1 s2
      using that Suc.IH [OF that, of "Suc i"] by (simp add: out_eq_def)
  qed
qed

lemma simulate_alike:
  assumes "well_named fs" and "sim_eq fs st t"
  shows "out_eq fs (simulate fs depth st d ins) (simulate fs depth t d ins)"
  using assms(2)
proof (induction depth arbitrary: st t d ins)
  case 0
  show ?case by (simp add: out_eq_def)
next
  case (Suc depth)
  let ?st0 = "st\<lparr>signal_values := init_signals d ins\<rparr>"
  let ?t0 = "t\<lparr>signal_values := init_signals d ins\<rparr>"
  let ?k = "\<lambda>(n::nat) s. Some (Inr (extract_outputs d (signal_values s)), s)"
  have "sim_eq fs ?st0 ?t0"
    using Suc.prems by (simp add: sim_eq_def)
  with assms(1) Suc.IH
  have "out_eq fs (iterate fs (simulate fs depth) (parts d) max_iterations 0 ?st0)
          (iterate fs (simulate fs depth) (parts d) max_iterations 0 ?t0)"
    by (rule iterate_alike)
  moreover have "out_eq fs (?k n s1) (?k n s2)" if "sim_eq fs s1 s2" for n s1 s2
    using that by (simp add: out_eq_def sim_eq_def)
  ultimately have "out_eq fs
      (case iterate fs (simulate fs depth) (parts d) max_iterations 0 ?st0 of
         None \<Rightarrow> None | Some (Inl e, s) \<Rightarrow> Some (Inl e, s) | Some (Inr n, s) \<Rightarrow> ?k n s)
      (case iterate fs (simulate fs depth) (parts d) max_iterations 0 ?t0 of
         None \<Rightarrow> None | Some (Inl e, s) \<Rightarrow> Some (Inl e, s) | Some (Inr n, s) \<Rightarrow> ?k n s)"
    by (rule out_eq_bind)
  then show ?case
    using Suc.prems by (simp add: simulate_body_def out_eq_def)
qed

text \<open>What a call returns does not depend on the signal values it finds.\<close>

lemma simulate_signal_values:
  "result (simulate fs depth (st\<lparr>signal_values := sv\<rparr>) d ins) =
   result (simulate fs depth st d ins)"
  by (cases depth) (simp_all add: result_def simulate_body_def)

lemma result_state_after:
  "result r = Some v \<Longrightarrow> r = Some (v, state_after r st)"
  by (auto simp: result_def state_after_def)

text \<open>
  C9, as the code has it. With well-named units, if a call of \<open>simulate\<close> returns
  outputs, the next call on the simulator it leaves, with the same definition and
  inputs, returns the same outputs; and each of the two calls leaves every registry
  entry that was there before it as it was. The definition is an argument that
  \<open>simulate\<close> only reads; the definitions it could change are those of the registry.
\<close>

theorem simulate_deterministic:
  assumes "well_named fs" and "simulate fs depth st d ins = Some (Inr outs, st1)"
  shows "result (simulate fs depth st1 d ins) = Some (Inr outs)
       \<and> (\<forall>n e. chips_cache (parser st) n = Some e \<longrightarrow> chips_cache (parser st1) n = Some e)
       \<and> (\<forall>n e. chips_cache (parser st1) n = Some e \<longrightarrow>
            chips_cache (parser (state_after (simulate fs depth st1 d ins) st1)) n = Some e)"
proof -
  have g1: "grows fs (parser st) (parser st1)"
    using simulate_keeps [OF assms(1), of st depth d ins] assms(2) by (simp add: keeps_def)
  then have "sim_eq fs st (st1\<lparr>signal_values := signal_values st\<rparr>)"
    by (simp add: sim_eq_def grows_def)
  from simulate_alike [OF assms(1) this, of depth d ins] assms(2)
  have "result (simulate fs depth (st1\<lparr>signal_values := signal_values st\<rparr>) d ins) =
      Some (Inr outs)"
    by (auto simp: out_eq_def result_def split: option.splits)
  then have second: "result (simulate fs depth st1 d ins) = Some (Inr outs)"
    by (simp add: simulate_signal_values)
  then obtain st2 where s2: "simulate fs depth st1 d ins = Some (Inr outs, st2)"
    by (auto simp: result_def)
  with simulate_keeps [OF assms(1), of st1 depth d ins]
  have g2: "grows fs (parser st1) (parser (state_after (simulate fs depth st1 d ins) st1))"
    by (simp add: keeps_def state_after_def)
  have "chips_cache p' n = Some e" if "grows fs p p'" "chips_cache p n = Some e" for p p' n e
    using that by (auto simp: grows_def map_le_def dom_def)
  with g1 g2 second show ?thesis
    by blast
qed

text \<open>
  The units of \<open>Xor\<close> are well named; the first call on \<open>HalfAdder\<close> loads \<open>Xor\<close> from
  its unit, and the second call returns the same outputs.
\<close>

lemma well_named_xor_files: "well_named xor_files"
proof -
  have key: "n = ''Xor'' \<and> content = xor_hdl" if "xor_files (n @ ''.hdl'') = Some content"
    for n content
  proof -
    from that have "n @ ''.hdl'' = ''Xor.hdl''" and content: "content = xor_hdl"
      by (simp_all add: xor_files_def split: if_splits)
    then have "n @ ''.hdl'' = ''Xor'' @ ''.hdl''"
      by simp
    then have "n = ''Xor''"
      by (rule append_same_eq [THEN iffD1])
    with content show ?thesis by simp
  qed
  show ?thesis
    unfolding well_named_def
  proof (intro allI impI)
    fix n content d
    assume f: "xor_files (n @ ''.hdl'') = Some content"
      and p: "fst (parse_hdl init_parser content None) = Inr d"
    from key [OF f] have n: "n = ''Xor''" and "content = xor_hdl"
      by simp_all
    with p parse_xor_hdl have "d = xor_chip"
      by simp
    with n show "name d = n"
      by (simp add: xor_chip_def)
  qed
qed

lemma get_chip_definition_xor:
  "chips_cache p ''Xor'' = None \<Longrightarrow>
   get_chip_definition xor_files p ''Xor'' =
     (Inr (Some xor_chip), p\<lparr>chips_cache := (chips_cache p)(''Xor'' \<mapsto> xor_chip)\<rparr>)"
  by (simp add: get_chip_definition_def parse_file_def xor_files_def
      parse_hdl_frame [of p] parse_xor_hdl)
    (simp add: xor_chip_def)

lemma half_adder_00_lazy:
  assumes "get_chip_definition fs (parser st) ''Xor'' = (Inr (Some xor_chip), p')"
  shows "result (simulate fs (Suc (Suc depth)) st half_adder [''a'' \<mapsto> 0, ''b'' \<mapsto> 0]) =
           Some (Inr [''sum'' \<mapsto> 0, ''carry'' \<mapsto> 0])"
  using assms
  by (simp add: gate_defs body_defs half_adder_def xor_chip_def max_iterations_def iterate_unfold)

theorem simulate_deterministic_witness:
  "well_named xor_files
   \<and> result (simulate xor_files (Suc (Suc 0)) (ChipSimulator init_parser) half_adder
        [''a'' \<mapsto> 0, ''b'' \<mapsto> 0]) =
       Some (Inr [''sum'' \<mapsto> 0, ''carry'' \<mapsto> 0])
   \<and> result (simulate xor_files (Suc (Suc 0))
        (state_after (simulate xor_files (Suc (Suc 0)) (ChipSimulator init_parser) half_adder
           [''a'' \<mapsto> 0, ''b'' \<mapsto> 0]) (ChipSimulator init_parser))
        half_adder [''a'' \<mapsto> 0, ''b'' \<mapsto> 0]) =
       Some (Inr [''sum'' \<mapsto> 0, ''carry'' \<mapsto> 0])"
proof -
  let ?st = "ChipSimulator init_parser"
  let ?call = "simulate xor_files (Suc (Suc 0)) ?st half_adder [''a'' \<mapsto> 0, ''b'' \<mapsto> 0]"
  have "chips_cache (parser ?st) ''Xor'' = None"
    by (simp add: ChipSimulator_def init_parser_def built_in_chips_def)
  then have "get_chip_definition xor_files (parser ?st) ''Xor'' =
      (Inr (Some xor_chip),
       (parser ?st)\<lparr>chips_cache := (chips_cache (parser ?st))(''Xor'' \<mapsto> xor_chip)\<rparr>)"
    by (rule get_chip_definition_xor)
  then have first: "result ?call = Some (Inr [''sum'' \<mapsto> 0, ''carry'' \<mapsto> 0])"
    by (rule half_adder_00_lazy)
  then have "?call = Some (Inr [''sum'' \<mapsto> 0, ''carry'' \<mapsto> 0], state_after ?call ?st)"
    by (rule result_state_after)
  from simulate_deterministic [OF well_named_xor_files this] first well_named_xor_files
  show ?thesis by simp
qed

text \<open>
  Without the condition on the units the claim fails. \<open>Relay\<close> uses \<open>Gate\<close>; the
  registry holds \<open>Gate\<close> as the chip with the part \<open>Loader\<close>, and the unit
  \<open>Loader.hdl\<close> declares \<open>Gate\<close> again, as an inverter. The first call returns
  \<open>o = 0\<close> and replaces the registry entry \<open>Gate\<close> while it loads \<open>Loader\<close>; the second
  call, with the same definition and inputs, returns \<open>o = 1\<close>.
\<close>

lemma parse_loader_hdl: "fst (parse_hdl init_parser loader_hdl None) = Inr gate_inverter"
  by code_simp

lemma get_chip_definition_hit:
  "chips_cache p n = Some d \<Longrightarrow> get_chip_definition fs p n = (Inr (Some d), p)"
  by (simp add: get_chip_definition_def)

lemma get_chip_definition_loader:
  "chips_cache p ''Loader'' = None \<Longrightarrow>
   get_chip_definition loader_files p ''Loader'' =
     (Inr (Some gate_inverter), p\<lparr>chips_cache := (chips_cache p)(''Gate'' \<mapsto> gate_inverter)\<rparr>)"
  by (simp add: get_chip_definition_def parse_file_def loader_files_def
      parse_hdl_frame [of p] parse_loader_hdl)
    (simp add: gate_inverter_def)

lemma relay_first_call:
  assumes "chips_cache (parser st) ''Gate'' = Some gate_stub"
    and "chips_cache (parser st) ''Loader'' = None"
  shows "result (simulate loader_files (Suc (Suc (Suc depth))) st relay_chip [''a'' \<mapsto> 0]) =
           Some (Inr [''o'' \<mapsto> 0])
       \<and> chips_cache (parser (state_after
             (simulate loader_files (Suc (Suc (Suc depth))) st relay_chip [''a'' \<mapsto> 0]) st))
           ''Gate'' = Some gate_inverter"
proof -
  have stub: "simulate_custom loader_files (simulate loader_files (Suc (Suc depth)))
      (ChipInstance ''Gate'' ''Gate_0'' [Connection ''a'' ''in'', Connection ''o'' ''out''])
      (st\<lparr>signal_values := [''a'' \<mapsto> 0, ''o'' \<mapsto> 0]\<rparr>) =
    Some (Inr False,
      st\<lparr>signal_values := [''in'' \<mapsto> 0, ''out'' \<mapsto> 1],
         parser := (parser st)\<lparr>chips_cache := (chips_cache (parser st))(''Gate'' \<mapsto> gate_inverter)\<rparr>\<rparr>)"
    using assms
    by (simp add: simulate_custom_def [of _ _ "ChipInstance ''Gate'' _ _"]
        get_chip_definition_hit [of _ "''Gate''" gate_stub]
        gate_defs body_defs gate_stub_def max_iterations_def iterate_unfold
        get_chip_definition_loader)
      (simp add: gate_inverter_def gate_defs body_defs max_iterations_def iterate_unfold)
  then show ?thesis
    by (simp add: simulate_part_def built_in_chips_def ChipInstance_def body_defs relay_chip_def
        max_iterations_def iterate_unfold state_after_def dict_get_def)
qed

lemma relay_second_call:
  assumes c: "chips_cache (parser st) ''Gate'' = Some gate_inverter"
  shows "result (simulate fs (Suc (Suc depth)) st relay_chip [''a'' \<mapsto> 0]) =
           Some (Inr [''o'' \<mapsto> 1])"
proof -
  note defs = part_defs body_defs relay_chip_def gate_inverter_def max_iterations_def iterate_unfold
  let ?sim = "simulate fs (Suc depth)"
  let ?st1 = "snd (the (simulate_parts fs ?sim (parts relay_chip) False
                 (st\<lparr>signal_values := init_signals relay_chip [''a'' \<mapsto> 0]\<rparr>)))"
  have "simulate_body fs ?sim st relay_chip [''a'' \<mapsto> 0] =
          Some (Inr (extract_outputs relay_chip (signal_values ?st1)), ?st1)"
    by (rule simulate_body_busy) (use c in \<open>simp_all add: defs\<close>)
  moreover have "extract_outputs relay_chip (signal_values ?st1) = [''o'' \<mapsto> 1]"
    using c by (simp add: defs)
  ultimately show ?thesis
    by (simp add: result_def)
qed

theorem simulate_not_deterministic:
  "result (simulate loader_files (Suc (Suc (Suc 0))) stub_simulator relay_chip [''a'' \<mapsto> 0]) =
     Some (Inr [''o'' \<mapsto> 0])
   \<and> result (simulate loader_files (Suc (Suc (Suc 0)))
        (state_after (simulate loader_files (Suc (Suc (Suc 0))) stub_simulator relay_chip
           [''a'' \<mapsto> 0]) stub_simulator)
        relay_chip [''a'' \<mapsto> 0]) =
     Some (Inr [''o'' \<mapsto> 1])
   \<and> chips_cache (parser stub_simulator) ''Gate'' = Some gate_stub
   \<and> chips_cache (parser (state_after
         (simulate loader_files (Suc (Suc (Suc 0))) stub_simulator relay_chip [''a'' \<mapsto> 0])
         stub_simulator)) ''Gate'' = Some gate_inverter
   \<and> gate_stub \<noteq> gate_inverter"
proof -
  have 1: "chips_cache (parser stub_simulator) ''Gate'' = Some gate_stub"
    and 2: "chips_cache (parser stub_simulator) ''Loader'' = None"
    by (simp_all add: stub_simulator_def ChipSimulator_def init_parser_def built_in_chips_def)
  note first = relay_first_call [OF 1 2, of 0]
  from first have "chips_cache (parser (state_after
         (simulate loader_files (Suc (Suc (Suc 0))) stub_simulator relay_chip [''a'' \<mapsto> 0])
         stub_simulator)) ''Gate'' = Some gate_inverter"
    by simp
  note second = relay_second_call [OF this, of loader_files "Suc 0"]
  have "gate_stub \<noteq> gate_inverter"
    by (simp add: gate_stub_def gate_inverter_def)
  with first second 1 show ?thesis
    by simp
qed

end
